theory Spec2Isabelle
  imports Complex_Main "HOL-Library.Sublist"
begin

section \<open>The PDF watermark remover: data model\<close>

text \<open>
  A shallow embedding of \<^verbatim>\<open>pdf_processor.py\<close> (class \<^verbatim>\<open>PDFProcessor\<close>).
  Python floats are idealised as real numbers; Python strings that hold page text are
  lists of Unicode code points, file paths are byte strings.
\<close>

subsection \<open>Rectangles and errors\<close>

text \<open>
  A \<^verbatim>\<open>fitz.Rect\<close> holds four coordinates. Its \<^verbatim>\<open>width\<close> and \<^verbatim>\<open>height\<close>
  properties are the library's: the extent along each axis, never negative.
\<close>

record rect =
  x0 :: real
  y0 :: real
  x1 :: real
  y1 :: real

definition width :: "rect \<Rightarrow> real" where
  "width r = max 0 (x1 r - x0 r)"

definition height :: "rect \<Rightarrow> real" where
  "height r = max 0 (y1 r - y0 r)"

definition Rect :: "real \<Rightarrow> real \<Rightarrow> real \<Rightarrow> real \<Rightarrow> rect" where
  "Rect a b c d = \<lparr>x0 = a, y0 = b, x1 = c, y1 = d\<rparr>"

datatype error =
  FileNotFoundError | IndexError | ZeroDivisionError | ValueError | FzErrorSystem | OSError

subsection \<open>The Region Heuristic of the Page Redactor\<close>

text \<open>
  Lines 146--156 of \<^verbatim>\<open>_remove_watermarks\<close>: the locals computed for one placement
  rectangle and the condition of the \<^verbatim>\<open>if\<close>. A float division by zero raises
  \<^verbatim>\<open>ZeroDivisionError\<close>; the divisions are evaluated in the order of the source.
\<close>

definition region_heuristic :: "real \<Rightarrow> real \<Rightarrow> rect \<Rightarrow> error + bool" where
  "region_heuristic page_width page_height r =
     (if page_width = 0 then Inl ZeroDivisionError
      else if page_height = 0 then Inl ZeroDivisionError
      else
        let rel_x = x0 r / page_width;
            rel_y = y0 r / page_height;
            rel_width = width r / page_width;
            rel_height = height r / page_height;
            area = width r * height r;
            is_bottom_right = (rel_y > 0.7 \<and> rel_x > 0.65);
            is_small = (area < 20000);
            is_very_small_height = (rel_height < 0.12)
        in Inr (is_bottom_right \<and> is_small \<and> is_very_small_height))"

subsection \<open>The Keyword Matcher\<close>

text \<open>
  Page text is a list of Unicode code points. \<^verbatim>\<open>str.lower\<close> is modelled on the
  ASCII letters; every other code point is taken to be caseless.
\<close>

definition zh_keywords :: "nat list list" where
  "zh_keywords = [[0x5168, 0x80FD], [0x626B, 0x63CF], [0x521B, 0x5EFA], [0x738B]]"

definition en_keywords :: "nat list list" where
  "en_keywords =
     map (map of_char) [''CamScanner'', ''Scanned with'', ''Created by'', ''scan'']"

definition lower :: "nat list \<Rightarrow> nat list" where
  "lower = map (\<lambda>c. if 65 \<le> c \<and> c \<le> 90 then c + 32 else c)"

text \<open>Python's \<^verbatim>\<open>sub in s\<close> on strings: \<open>sub\<close> occurs as a contiguous run of \<open>s\<close>.\<close>

fun contains :: "'a list \<Rightarrow> 'a list \<Rightarrow> bool" where
  "contains sub [] = (sub = [])"
| "contains sub (c # cs) = (prefix sub (c # cs) \<or> contains sub cs)"

definition has_watermark :: "nat list \<Rightarrow> bool" where
  "has_watermark text =
     list_ex (\<lambda>kw. contains (lower kw) (lower text)) (zh_keywords @ en_keywords)"

subsection \<open>Pages and documents\<close>

text \<open>
  A page as the code reads it through the library: \<^verbatim>\<open>page.rect\<close>, the plain text of
  \<^verbatim>\<open>get_text("text")\<close>, the blocks of \<^verbatim>\<open>get_text("dict")\<close>, the entries of
  \<^verbatim>\<open>get_images()\<close> (each with the rectangles \<^verbatim>\<open>get_image_rects(xref)\<close> returns
  for it) and the shapes drawn on it so far.
\<close>

record span =
  span_text :: "nat list"
  span_size :: real

record block =
  block_type :: int
  block_lines :: "span list list"

record image =
  xref :: nat
  img_width :: nat
  img_height :: nat
  get_image_rects :: "rect list"

type_synonym colour = "nat \<times> nat \<times> nat"

datatype drawing = Draw_rect rect colour colour

definition white :: colour where
  "white = (1, 1, 1)"

record page =
  rect :: rect
  get_text :: "nat list"
  get_blocks :: "block list"
  get_images :: "image list"
  drawn :: "drawing list"

text \<open>A stored PDF file: its pages and its size in bytes.\<close>

record pdf =
  pdf_pages :: "page list"
  pdf_bytes :: nat

text \<open>
  The world the processor acts on. \<open>fs\<close> is the file system as seen through path
  strings: the file a path denotes, if there is one. \<open>canon\<close> says which file a path
  would name: two paths with the same value are the same file (as \<^verbatim>\<open>a.pdf\<close> and
  \<^verbatim>\<open>./a.pdf\<close> are), and a path with no value cannot be created (a directory on it
  is missing, or it cannot be opened for writing). The world also keeps the inputs
  Ghostscript was run on and the per-document counts \<^verbatim>\<open>_remove_watermarks\<close>
  prints; the other console messages carry no state and are left out.
\<close>

record world =
  fs :: "string \<rightharpoonup> pdf"
  canon :: "string \<Rightarrow> string option"
  gs_runs :: "string list"
  printed :: "nat list"

text \<open>
  Writing a file changes what every path to that file denotes, and fails on a path that
  cannot be created. Deleting a file takes it away under every path to it.
\<close>

definition write_file :: "string \<Rightarrow> pdf \<Rightarrow> world \<Rightarrow> world option" where
  "write_file path f w =
     (case canon w path of
        None \<Rightarrow> None
      | Some c \<Rightarrow> Some (w\<lparr>fs := (\<lambda>x. if canon w x = Some c then Some f else fs w x)\<rparr>))"

definition delete_file :: "string \<Rightarrow> world \<Rightarrow> world" where
  "delete_file path w =
     w\<lparr>fs := (\<lambda>x. if x = path \<or> (canon w x \<noteq> None \<and> canon w x = canon w path)
                    then None else fs w x)\<rparr>"

text \<open>
  What the code does not decide: the size of the file each writer produces for a page
  sequence, whether the \<^verbatim>\<open>gs\<close> executable exists, and what it makes of an input
  (\<open>None\<close>: it exits with a non-zero status).
\<close>

record env =
  fitz_save :: "page list \<Rightarrow> nat"
  pypdf_write :: "page list \<Rightarrow> nat"
  gs_installed :: bool
  gs_convert :: "pdf \<Rightarrow> pdf option"

subsection \<open>Strings and numbers of the Python runtime\<close>

text \<open>\<^verbatim>\<open>s.replace(old, new)\<close>: every non-overlapping occurrence, left to right.\<close>

function replace_from :: "string \<Rightarrow> string \<Rightarrow> string \<Rightarrow> string" where
  "replace_from old new s =
     (if old = [] \<or> s = [] then s
      else if prefix old s then new @ replace_from old new (drop (length old) s)
      else hd s # replace_from old new (tl s))"
  by pat_completeness auto
termination
  by (relation "measure (\<lambda>(old, new, s). length s)") (auto simp: neq_Nil_conv)

declare replace_from.simps [simp del]

definition replace :: "string \<Rightarrow> string \<Rightarrow> string \<Rightarrow> string" where
  "replace old new s =
     (if old = [] then new @ concat (map (\<lambda>c. c # new) s) else replace_from old new s)"

text \<open>
  \<^verbatim>\<open>round(x, ndigits)\<close>: to the nearest multiple of \<open>10 ^ - ndigits\<close>, a tie going to
  the even one.
\<close>

definition round_half_even :: "real \<Rightarrow> int" where
  "round_half_even x =
     (let f = \<lfloor>x\<rfloor>; d = x - of_int f
      in if d < 1 / 2 then f else if d > 1 / 2 then f + 1
         else if even f then f else f + 1)"

definition py_round :: "real \<Rightarrow> nat \<Rightarrow> real" where
  "py_round x ndigits = of_int (round_half_even (x * 10 ^ ndigits)) / 10 ^ ndigits"

definition os_remove :: "string \<Rightarrow> world \<Rightarrow> error + world" where
  "os_remove path w =
     (if fs w path = None then Inl FileNotFoundError
      else Inr (delete_file path w))"

section \<open>The Page Redactor\<close>

text \<open>
  The loop over the placement rectangles of one image (lines 145--158). The state is
  the page's drawings and the counter \<^verbatim>\<open>watermarks_removed\<close>.
\<close>

fun redact_rects ::
  "real \<Rightarrow> real \<Rightarrow> rect list \<Rightarrow> drawing list \<times> nat \<Rightarrow> error + drawing list \<times> nat" where
  "redact_rects page_width page_height [] st = Inr st"
| "redact_rects page_width page_height (r # rects) (ds, watermarks_removed) =
     (case region_heuristic page_width page_height r of
        Inl e \<Rightarrow> Inl e
      | Inr is_watermark \<Rightarrow>
          redact_rects page_width page_height rects
            (if is_watermark
             then (ds @ [Draw_rect r white white], watermarks_removed + 1)
             else (ds, watermarks_removed)))"

text \<open>The loop over the images of the page (lines 138--158).\<close>

fun redact_images ::
  "real \<Rightarrow> real \<Rightarrow> image list \<Rightarrow> drawing list \<times> nat \<Rightarrow> error + drawing list \<times> nat" where
  "redact_images page_width page_height [] st = Inr st"
| "redact_images page_width page_height (img # imgs) st =
     (case redact_rects page_width page_height (get_image_rects img) st of
        Inl e \<Rightarrow> Inl e
      | Inr st' \<Rightarrow> redact_images page_width page_height imgs st')"

definition watermark_rect :: "real \<Rightarrow> real \<Rightarrow> rect" where
  "watermark_rect page_width page_height =
     Rect (page_width * 0.45) (page_height * 0.88) (page_width - 5) (page_height - 5)"

definition text_watermark_rect :: "real \<Rightarrow> real \<Rightarrow> rect" where
  "text_watermark_rect page_width page_height =
     Rect (page_width * 0.5) (page_height * 0.85) (page_width - 2) (page_height - 2)"

definition qr_rect :: "real \<Rightarrow> real \<Rightarrow> rect" where
  "qr_rect page_width page_height =
     Rect (page_width * 0.75) (page_height * 0.85) (page_width - 2) (page_height - 2)"

text \<open>The body of the loop over the pages (lines 112--176), for one page.\<close>

definition redact_page :: "bool \<Rightarrow> bool \<Rightarrow> page \<Rightarrow> nat \<Rightarrow> error + page \<times> nat" where
  "redact_page remove_text remove_qr p watermarks_removed =
     (let page_width = width (rect p);
          page_height = height (rect p);
          st1 = (if remove_text \<and> has_watermark (get_text p)
                 then (drawn p @ [Draw_rect (watermark_rect page_width page_height) white white],
                       watermarks_removed + 1)
                 else (drawn p, watermarks_removed))
      in case (if remove_qr then redact_images page_width page_height (get_images p) st1
               else Inr st1) of
           Inl e \<Rightarrow> Inl e
         | Inr (ds, n) \<Rightarrow>
             Inr (p\<lparr>drawn :=
                     (if remove_text \<or> remove_qr
                      then ds @ [Draw_rect (text_watermark_rect page_width page_height) white white,
                                 Draw_rect (qr_rect page_width page_height) white white]
                      else ds)\<rparr>, n))"

fun redact_pages :: "bool \<Rightarrow> bool \<Rightarrow> page list \<Rightarrow> nat \<Rightarrow> error + page list \<times> nat" where
  "redact_pages remove_text remove_qr [] watermarks_removed = Inr ([], watermarks_removed)"
| "redact_pages remove_text remove_qr (p # ps) watermarks_removed =
     (case redact_page remove_text remove_qr p watermarks_removed of
        Inl e \<Rightarrow> Inl e
      | Inr (p', n) \<Rightarrow>
          (case redact_pages remove_text remove_qr ps n of
             Inl e \<Rightarrow> Inl e
           | Inr (ps', n') \<Rightarrow> Inr (p' # ps', n')))"

text \<open>
  \<^verbatim>\<open>_remove_watermarks\<close>. \<^verbatim>\<open>fitz.open\<close> fails on a missing file.
  \<^verbatim>\<open>doc.save\<close> raises \<^verbatim>\<open>ValueError\<close> when the target is the name the document
  was opened under, and when the document has no page; it raises the library's
  \<^verbatim>\<open>FzErrorSystem\<close> when the target cannot be created, and the file it is reading
  cannot be its target under another name. The count is printed after the save.
\<close>

definition remove_watermarks ::
  "env \<Rightarrow> string \<Rightarrow> bool \<Rightarrow> bool \<Rightarrow> world \<Rightarrow> error + string \<times> world" where
  "remove_watermarks ev input_path remove_text remove_qr w =
     (case fs w input_path of
        None \<Rightarrow> Inl FileNotFoundError
      | Some doc \<Rightarrow>
          (case redact_pages remove_text remove_qr (pdf_pages doc) 0 of
             Inl e \<Rightarrow> Inl e
           | Inr (ps, watermarks_removed) \<Rightarrow>
               let output_path = replace ''.pdf'' ''_clean.pdf'' input_path in
               if output_path = input_path then Inl ValueError
               else if ps = [] then Inl ValueError
               else if canon w output_path = canon w input_path then Inl FzErrorSystem
               else
                 (case write_file output_path
                         \<lparr>pdf_pages = ps, pdf_bytes = fitz_save ev ps\<rparr> w of
                    None \<Rightarrow> Inl FzErrorSystem
                  | Some w1 \<Rightarrow>
                      Inr (output_path, w1\<lparr>printed := printed w @ [watermarks_removed]\<rparr>))))"

section \<open>Merging and compressing\<close>

text \<open>
  The loop of \<^verbatim>\<open>_merge_pdfs\<close>: the pages of every file that exists, in order.
  \<^verbatim>\<open>open(output_path, 'wb')\<close> raises an \<^verbatim>\<open>OSError\<close> on a path that cannot be
  created.
\<close>

fun merge_loop :: "(string \<rightharpoonup> pdf) \<Rightarrow> string list \<Rightarrow> page list \<Rightarrow> page list" where
  "merge_loop disk [] pdf_writer = pdf_writer"
| "merge_loop disk (filepath # file_paths) pdf_writer =
     merge_loop disk file_paths
       (case disk filepath of
          None \<Rightarrow> pdf_writer
        | Some reader \<Rightarrow> pdf_writer @ pdf_pages reader)"

definition merge_pdfs :: "env \<Rightarrow> string list \<Rightarrow> world \<Rightarrow> error + string \<times> world" where
  "merge_pdfs ev file_paths w =
     (let pdf_writer = merge_loop (fs w) file_paths []
      in case file_paths of
           [] \<Rightarrow> Inl IndexError
         | first # _ \<Rightarrow>
             let output_path = replace ''.pdf'' ''_merged.pdf'' first
             in case write_file output_path
                       \<lparr>pdf_pages = pdf_writer, pdf_bytes = pypdf_write ev pdf_writer\<rparr> w of
                  None \<Rightarrow> Inl OSError
                | Some w1 \<Rightarrow> Inr (output_path, w1))"

text \<open>
  \<^verbatim>\<open>_compress_pdf\<close>. \<^verbatim>\<open>subprocess.run(gs_cmd, check=True)\<close> raises
  \<^verbatim>\<open>FileNotFoundError\<close> when the executable is missing and
  \<^verbatim>\<open>CalledProcessError\<close> on a non-zero exit status; the \<^verbatim>\<open>except\<close> clause
  catches the second only. Ghostscript exits with a non-zero status on an input that
  does not exist and on an output that cannot be created.
\<close>

definition compress_pdf :: "env \<Rightarrow> string \<Rightarrow> world \<Rightarrow> error + string \<times> world" where
  "compress_pdf ev input_path w =
     (let output_path = replace ''.pdf'' ''_compressed.pdf'' input_path;
          w1 = w\<lparr>gs_runs := gs_runs w @ [input_path]\<rparr>
      in if gs_installed ev then
           (case fs w input_path of
              None \<Rightarrow> Inr (input_path, w1)
            | Some f \<Rightarrow>
                (case gs_convert ev f of
                   None \<Rightarrow> Inr (input_path, w1)
                 | Some g \<Rightarrow>
                     (case write_file output_path g w1 of
                        None \<Rightarrow> Inr (input_path, w1)
                      | Some w2 \<Rightarrow> Inr (output_path, w2))))
         else Inl FileNotFoundError)"

section \<open>The Document Pipeline\<close>

record stats =
  pages :: nat
  files :: nat
  watermarks :: nat
  size_mb :: real

text \<open>
  The \<^verbatim>\<open>for\<close> loop of \<^verbatim>\<open>process\<close> (lines 42--66) either returns from the
  function or falls through with \<^verbatim>\<open>total_pages\<close> and \<^verbatim>\<open>processed_pdfs\<close>.
\<close>

datatype loop_exit = Return "string \<times> stats" | Fallthrough nat "string list"

fun process_loop ::
  "env \<Rightarrow> bool \<Rightarrow> bool \<Rightarrow> bool \<Rightarrow> nat \<Rightarrow> nat \<Rightarrow> nat \<Rightarrow> string list \<Rightarrow> nat \<Rightarrow> string list \<Rightarrow>
   world \<Rightarrow> error + loop_exit \<times> world" where
  "process_loop ev remove_text remove_qr merge n_files total_watermarks i []
     total_pages processed_pdfs w = Inr (Fallthrough total_pages processed_pdfs, w)"
| "process_loop ev remove_text remove_qr merge n_files total_watermarks i (filepath # rest)
     total_pages processed_pdfs w =
     (case remove_watermarks ev filepath remove_text remove_qr w of
        Inl e \<Rightarrow> Inl e
      | Inr (clean_path, w1) \<Rightarrow>
          (case fs w1 clean_path of
             None \<Rightarrow> Inl FileNotFoundError
           | Some doc \<Rightarrow>
               let total_pages1 = total_pages + length (pdf_pages doc) in
               if \<not> merge \<and> i = 0 then
                 Inr (Return (clean_path,
                        \<lparr>pages = total_pages1, files = n_files,
                         watermarks = total_watermarks,
                         size_mb = real (pdf_bytes doc) / (1024 * 1024)\<rparr>), w1)
               else
                 process_loop ev remove_text remove_qr merge n_files total_watermarks (i + 1)
                   rest total_pages1 (processed_pdfs @ [clean_path]) w1))"

text \<open>The clean-up loop (lines 73--75).\<close>

fun cleanup :: "string list \<Rightarrow> string \<Rightarrow> world \<Rightarrow> world" where
  "cleanup [] merged_path w = w"
| "cleanup (fp # fps) merged_path w =
     cleanup fps merged_path
       (if fs w fp \<noteq> None \<and> fp \<noteq> merged_path then delete_file fp w else w)"

text \<open>Lines 69--84: the path of the final file.\<close>

definition finish ::
  "env \<Rightarrow> bool \<Rightarrow> bool \<Rightarrow> string list \<Rightarrow> world \<Rightarrow> error + string \<times> world" where
  "finish ev merge compress processed_pdfs w =
     (if merge \<and> length processed_pdfs > 1 then
        (case merge_pdfs ev processed_pdfs w of
           Inl e \<Rightarrow> Inl e
         | Inr (merged_path, w1) \<Rightarrow>
             let w2 = cleanup processed_pdfs merged_path w1 in
             if compress then
               (case compress_pdf ev merged_path w2 of
                  Inl e \<Rightarrow> Inl e
                | Inr (final_path, w3) \<Rightarrow>
                    (case os_remove merged_path w3 of
                       Inl e \<Rightarrow> Inl e
                     | Inr w4 \<Rightarrow> Inr (final_path, w4)))
             else Inr (merged_path, w2))
      else
        (case processed_pdfs of
           [] \<Rightarrow> Inl IndexError
         | final_path # _ \<Rightarrow> Inr (final_path, w)))"

definition process ::
  "env \<Rightarrow> string list \<Rightarrow> bool \<Rightarrow> bool \<Rightarrow> bool \<Rightarrow> bool \<Rightarrow> world \<Rightarrow>
   error + (string \<times> stats) \<times> world" where
  "process ev file_paths remove_text remove_qr merge compress w =
     (let total_watermarks = 0 in
      case process_loop ev remove_text remove_qr merge (length file_paths) total_watermarks 0
             file_paths 0 [] w of
        Inl e \<Rightarrow> Inl e
      | Inr (Return r, w1) \<Rightarrow> Inr (r, w1)
      | Inr (Fallthrough total_pages processed_pdfs, w1) \<Rightarrow>
          (case finish ev merge compress processed_pdfs w1 of
             Inl e \<Rightarrow> Inl e
           | Inr (final_path, w2) \<Rightarrow>
               (case fs w2 final_path of
                  None \<Rightarrow> Inl FileNotFoundError
                | Some f \<Rightarrow>
                    let size_mb = real (pdf_bytes f) / (1024 * 1024)
                    in Inr ((final_path,
                             \<lparr>pages = total_pages, files = length file_paths,
                              watermarks = total_watermarks,
                              size_mb = py_round size_mb 2\<rparr>), w2))))"

section \<open>The Scan Reporter\<close>

text \<open>
  The report of \<^verbatim>\<open>scan_pdf\<close>. The entries of \<^verbatim>\<open>image_details\<close> keep the numbers
  the source formats into strings: the page, the relative origin and the size.
\<close>

record text_detail =
  detail_text :: "nat list"
  detail_size :: real

record image_detail =
  detail_page :: nat
  detail_position :: "real \<times> real"
  detail_extent :: "real \<times> real"

record scan_report =
  report_pages :: nat
  report_images :: nat
  has_text_watermark :: bool
  has_qr_watermark :: bool
  text_details :: "text_detail list"
  image_details :: "image_detail list"

text \<open>Lines 261--268: the locals and the condition for one placement rectangle.\<close>

definition scan_heuristic :: "real \<Rightarrow> real \<Rightarrow> rect \<Rightarrow> error + bool" where
  "scan_heuristic page_width page_height r =
     (if page_width = 0 then Inl ZeroDivisionError
      else if page_height = 0 then Inl ZeroDivisionError
      else
        let rel_x = x0 r / page_width;
            rel_y = y0 r / page_height;
            area = width r * height r;
            is_bottom_right = (rel_y > 0.7 \<and> rel_x > 0.65);
            is_small = (area < 20000)
        in Inr (is_bottom_right \<and> is_small))"

fun scan_rects ::
  "nat \<Rightarrow> real \<Rightarrow> real \<Rightarrow> rect list \<Rightarrow> scan_report \<Rightarrow> error + scan_report" where
  "scan_rects page_num page_width page_height [] result = Inr result"
| "scan_rects page_num page_width page_height (r # rects) result =
     (case scan_heuristic page_width page_height r of
        Inl e \<Rightarrow> Inl e
      | Inr suspicious \<Rightarrow>
          scan_rects page_num page_width page_height rects
            (if suspicious
             then result\<lparr>has_qr_watermark := True,
                         image_details := image_details result @
                           [\<lparr>detail_page = page_num + 1,
                             detail_position = (x0 r / page_width, y0 r / page_height),
                             detail_extent = (width r, height r)\<rparr>]\<rparr>
             else result))"

fun scan_images ::
  "nat \<Rightarrow> real \<Rightarrow> real \<Rightarrow> image list \<Rightarrow> scan_report \<Rightarrow> error + scan_report" where
  "scan_images page_num page_width page_height [] result = Inr result"
| "scan_images page_num page_width page_height (img # imgs) result =
     (case scan_rects page_num page_width page_height (get_image_rects img) result of
        Inl e \<Rightarrow> Inl e
      | Inr result' \<Rightarrow> scan_images page_num page_width page_height imgs result')"

text \<open>The loop over the pages (lines 243--274).\<close>

fun scan_pages :: "nat \<Rightarrow> page list \<Rightarrow> scan_report \<Rightarrow> error + scan_report" where
  "scan_pages page_num [] result = Inr result"
| "scan_pages page_num (p # ps) result =
     (let page_width = width (rect p);
          page_height = height (rect p);
          result1 = (if has_watermark (get_text p)
                     then result\<lparr>has_text_watermark := True\<rparr> else result);
          result2 = result1\<lparr>report_images := report_images result1 + length (get_images p)\<rparr>
      in case scan_images page_num page_width page_height (get_images p) result2 of
           Inl e \<Rightarrow> Inl e
         | Inr result3 \<Rightarrow> scan_pages (page_num + 1) ps result3)"

text \<open>\<^verbatim>\<open>str.strip()\<close>: the code points for which \<^verbatim>\<open>str.isspace\<close> holds.\<close>

definition isspace :: "nat \<Rightarrow> bool" where
  "isspace c =
     (c \<in> {9, 10, 11, 12, 13, 28, 29, 30, 31, 32, 133, 160, 5760, 8192, 8193, 8194, 8195, 8196,
            8197, 8198, 8199, 8200, 8201, 8202, 8232, 8233, 8239, 8287, 12288})"

definition strip :: "nat list \<Rightarrow> nat list" where
  "strip s = rev (dropWhile isspace (rev (dropWhile isspace s)))"

text \<open>Lines 278--287: the short spans of the text blocks of the first page.\<close>

definition scan_span :: "text_detail list \<Rightarrow> span \<Rightarrow> text_detail list" where
  "scan_span details sp =
     (let text = strip (span_text sp)
      in if length text < 30 \<and> length text > 1
         then details @ [\<lparr>detail_text = text, detail_size = span_size sp\<rparr>]
         else details)"

definition scan_block :: "text_detail list \<Rightarrow> block \<Rightarrow> text_detail list" where
  "scan_block details b =
     (if block_type b = 0
      then foldl (\<lambda>ds line. foldl scan_span ds line) details (block_lines b)
      else details)"

text \<open>
  \<^verbatim>\<open>scan_pdf\<close>. \<^verbatim>\<open>doc[0]\<close> raises \<^verbatim>\<open>IndexError\<close> on a document with no page;
  a page object is always true.
\<close>

definition scan_pdf :: "string \<Rightarrow> world \<Rightarrow> error + scan_report" where
  "scan_pdf input_path w =
     (case fs w input_path of
        None \<Rightarrow> Inl FileNotFoundError
      | Some doc \<Rightarrow>
          (case scan_pages 0 (pdf_pages doc)
                  \<lparr>report_pages = length (pdf_pages doc), report_images = 0,
                   has_text_watermark = False, has_qr_watermark = False,
                   text_details = [], image_details = []\<rparr> of
             Inl e \<Rightarrow> Inl e
           | Inr result \<Rightarrow>
               (case pdf_pages doc of
                  [] \<Rightarrow> Inl IndexError
                | first # _ \<Rightarrow>
                    Inr (result\<lparr>text_details :=
                                  foldl scan_block (text_details result)
                                    (get_blocks first)\<rparr>))))"

section \<open>What a run computes\<close>

text \<open>
  Closed forms of the loops above, used to state what the redactor draws and counts:
  the rectangles of a page the Region Heuristic accepts, the number of redactions on a
  page, the drawings added to it, and the names of the intermediate files.
\<close>

definition is_watermark_rect :: "page \<Rightarrow> rect \<Rightarrow> bool" where
  "is_watermark_rect p r = (region_heuristic (width (rect p)) (height (rect p)) r = Inr True)"

definition page_rects :: "page \<Rightarrow> rect list" where
  "page_rects p = concat (map get_image_rects (get_images p))"

definition sized :: "page \<Rightarrow> bool" where
  "sized p = (width (rect p) \<noteq> 0 \<and> height (rect p) \<noteq> 0)"

definition page_count :: "bool \<Rightarrow> bool \<Rightarrow> page \<Rightarrow> nat" where
  "page_count remove_text remove_qr p =
     (if remove_text \<and> has_watermark (get_text p) then 1 else 0) +
     (if remove_qr then length (filter (is_watermark_rect p) (page_rects p)) else 0)"

definition safety_net :: "page \<Rightarrow> drawing list" where
  "safety_net p =
     [Draw_rect (text_watermark_rect (width (rect p)) (height (rect p))) white white,
      Draw_rect (qr_rect (width (rect p)) (height (rect p))) white white]"

definition page_drawings :: "bool \<Rightarrow> bool \<Rightarrow> page \<Rightarrow> drawing list" where
  "page_drawings remove_text remove_qr p =
     (if remove_text \<and> has_watermark (get_text p)
      then [Draw_rect (watermark_rect (width (rect p)) (height (rect p))) white white] else []) @
     (if remove_qr
      then map (\<lambda>r. Draw_rect r white white) (filter (is_watermark_rect p) (page_rects p))
      else []) @
     (if remove_text \<or> remove_qr then safety_net p else [])"

definition redacted_page :: "bool \<Rightarrow> bool \<Rightarrow> page \<Rightarrow> page" where
  "redacted_page remove_text remove_qr p = p\<lparr>drawn := drawn p @ page_drawings remove_text remove_qr p\<rparr>"

definition clean_name :: "string \<Rightarrow> string" where
  "clean_name p = replace ''.pdf'' ''_clean.pdf'' p"

definition merged_name :: "string \<Rightarrow> string" where
  "merged_name p = replace ''.pdf'' ''_merged.pdf'' p"

definition redacted_doc :: "env \<Rightarrow> bool \<Rightarrow> bool \<Rightarrow> pdf \<Rightarrow> pdf" where
  "redacted_doc ev remove_text remove_qr doc =
     \<lparr>pdf_pages = map (redacted_page remove_text remove_qr) (pdf_pages doc),
      pdf_bytes = fitz_save ev (map (redacted_page remove_text remove_qr) (pdf_pages doc))\<rparr>"

definition doc_count :: "bool \<Rightarrow> bool \<Rightarrow> pdf \<Rightarrow> nat" where
  "doc_count remove_text remove_qr doc =
     sum_list (map (page_count remove_text remove_qr) (pdf_pages doc))"

text \<open>What a call returned, and the world it left, when it did not raise.\<close>

definition returned :: "error + 'a \<times> world \<Rightarrow> 'a option" where
  "returned r = (case r of Inl e \<Rightarrow> None | Inr (x, w) \<Rightarrow> Some x)"

definition world_after :: "error + 'a \<times> world \<Rightarrow> world option" where
  "world_after r = (case r of Inl e \<Rightarrow> None | Inr (x, w) \<Rightarrow> Some w)"

definition pages_at :: "string \<Rightarrow> world \<Rightarrow> page list option" where
  "pages_at path w = map_option pdf_pages (fs w path)"

text \<open>
  A file the redactor can process: it has a page, and every page with an image has a
  width and a height that are not zero.
\<close>

definition readable :: "pdf \<Rightarrow> bool" where
  "readable doc =
     (pdf_pages doc \<noteq> [] \<and> list_all (\<lambda>p. sized p \<or> get_images p = []) (pdf_pages doc))"

text \<open>
  The entries \<^verbatim>\<open>scan_pdf\<close> records for one page, and for the pages of a document
  numbered from \<open>page_num\<close>.
\<close>

definition page_details :: "nat \<Rightarrow> page \<Rightarrow> image_detail list" where
  "page_details page_num p =
     map (\<lambda>r. \<lparr>detail_page = page_num + 1,
               detail_position = (x0 r / width (rect p), y0 r / height (rect p)),
               detail_extent = (width r, height r)\<rparr>)
       (filter (\<lambda>r. scan_heuristic (width (rect p)) (height (rect p)) r = Inr True)
          (page_rects p))"

definition doc_details :: "nat \<Rightarrow> page list \<Rightarrow> image_detail list" where
  "doc_details page_num ps =
     concat (map (\<lambda>(i, p). page_details i p) (zip [page_num..<page_num + length ps] ps))"

section \<open>Example documents\<close>

text \<open>
  The two single-page files of the two-file scenario: a 600 x 800 page with the text
  of a CamScanner banner, and a 600 x 800 page with a 100 x 100 image placed at
  85% of the width and 90% of the height.
\<close>

definition banner_page :: page where
  "banner_page =
     \<lparr>rect = Rect 0 0 600 800,
      get_text = [24050, 20351, 29992, 67, 97, 109, 83, 99, 97, 110, 110, 101, 114, 25195, 25551],
      get_blocks = [], get_images = [], drawn = []\<rparr>"

definition stamp_page :: page where
  "stamp_page =
     \<lparr>rect = Rect 0 0 600 800, get_text = [], get_blocks = [],
      get_images = [\<lparr>xref = 7, img_width = 100, img_height = 100,
                      get_image_rects = [Rect 510 720 610 820]\<rparr>],
      drawn = []\<rparr>"

text \<open>A page with no text and no images, labelled by a number.\<close>

definition plain_page :: "nat \<Rightarrow> page" where
  "plain_page k =
     \<lparr>rect = Rect 0 0 600 800, get_text = [], get_blocks = [], get_images = [],
      drawn = [Draw_rect (Rect 0 0 (real k) (real k)) (0, 0, 0) (0, 0, 0)]\<rparr>"

text \<open>
  A single directory: a name without a slash names its own file, and a path with a
  slash cannot be created.
\<close>

definition flat_dir :: "string \<Rightarrow> string option" where
  "flat_dir path = (if CHR ''/'' \<in> set path then None else Some path)"

definition gs_ok :: env where
  "gs_ok = \<lparr>fitz_save = (\<lambda>ps. 1234567 * length ps),
            pypdf_write = (\<lambda>ps. 1200000 * length ps),
            gs_installed = True, gs_convert = Some\<rparr>"

definition gs_failing :: env where
  "gs_failing = gs_ok\<lparr>gs_convert := Map.empty\<rparr>"

definition gs_missing :: env where
  "gs_missing = gs_ok\<lparr>gs_installed := False\<rparr>"

definition scenario :: world where
  "scenario =
     \<lparr>fs = [''a.pdf'' \<mapsto> \<lparr>pdf_pages = [banner_page], pdf_bytes = 5000\<rparr>,
             ''b.pdf'' \<mapsto> \<lparr>pdf_pages = [stamp_page], pdf_bytes = 6000\<rparr>],
      canon = flat_dir, gs_runs = [], printed = []\<rparr>"

definition two_and_three :: world where
  "two_and_three =
     \<lparr>fs = [''a.pdf'' \<mapsto> \<lparr>pdf_pages = [plain_page 1, plain_page 2], pdf_bytes = 5000\<rparr>,
             ''b.pdf'' \<mapsto> \<lparr>pdf_pages = [plain_page 3, plain_page 4, plain_page 5],
                          pdf_bytes = 6000\<rparr>],
      canon = flat_dir, gs_runs = [], printed = []\<rparr>"

text \<open>The same two documents, the second under the name of the first one's intermediate.\<close>

definition name_clash :: world where
  "name_clash =
     \<lparr>fs = [''x.pdf'' \<mapsto> \<lparr>pdf_pages = [plain_page 1, plain_page 2], pdf_bytes = 5000\<rparr>,
             ''x_clean.pdf'' \<mapsto> \<lparr>pdf_pages = [plain_page 3, plain_page 4, plain_page 5],
                                pdf_bytes = 6000\<rparr>],
      canon = flat_dir, gs_runs = [], printed = []\<rparr>"

text \<open>A file with no page.\<close>

definition no_pages :: world where
  "no_pages = \<lparr>fs = [''e.pdf'' \<mapsto> \<lparr>pdf_pages = [], pdf_bytes = 300\<rparr>],
               canon = flat_dir, gs_runs = [], printed = []\<rparr>"

section \<open>Supporting lemmas\<close>

subsection \<open>The redactor in closed form\<close>

lemma region_heuristic_total:
  "pw \<noteq> 0 \<Longrightarrow> ph \<noteq> 0 \<Longrightarrow> \<exists>b. region_heuristic pw ph r = Inr b"
  by (simp add: region_heuristic_def Let_def)

lemma redact_rects_sized:
  assumes "pw \<noteq> 0" and "ph \<noteq> 0"
  shows "redact_rects pw ph rects (ds, n) =
           Inr (ds @ map (\<lambda>r. Draw_rect r white white)
                       (filter (\<lambda>r. region_heuristic pw ph r = Inr True) rects),
                n + length (filter (\<lambda>r. region_heuristic pw ph r = Inr True) rects))"
proof (induction rects arbitrary: ds n)
  case Nil
  show ?case by simp
next
  case (Cons r rects)
  from assms obtain b where b: "region_heuristic pw ph r = Inr b"
    using region_heuristic_total by blast
  show ?case using Cons.IH b by (cases b) simp_all
qed

lemma redact_images_sized:
  assumes "pw \<noteq> 0" and "ph \<noteq> 0"
  shows "redact_images pw ph imgs (ds, n) =
           Inr (ds @ map (\<lambda>r. Draw_rect r white white)
                       (filter (\<lambda>r. region_heuristic pw ph r = Inr True)
                          (concat (map get_image_rects imgs))),
                n + length (filter (\<lambda>r. region_heuristic pw ph r = Inr True)
                          (concat (map get_image_rects imgs))))"
proof (induction imgs arbitrary: ds n)
  case Nil
  show ?case by simp
next
  case (Cons img imgs)
  show ?case
    by (simp add: redact_rects_sized [OF assms] Cons.IH)
qed

lemma redact_page_sized:
  assumes "sized p"
  shows "redact_page remove_text remove_qr p n =
           Inr (redacted_page remove_text remove_qr p, n + page_count remove_text remove_qr p)"
  using assms
  by (simp add: redact_page_def redacted_page_def page_count_def page_drawings_def
        safety_net_def is_watermark_rect_def [abs_def] page_rects_def sized_def Let_def
        redact_images_sized)

lemma redact_page_no_images:
  assumes "get_images p = []"
  shows "redact_page remove_text remove_qr p n =
           Inr (redacted_page remove_text remove_qr p, n + page_count remove_text remove_qr p)"
  using assms
  by (simp add: redact_page_def redacted_page_def page_count_def page_drawings_def
        safety_net_def is_watermark_rect_def [abs_def] page_rects_def Let_def)

lemma redact_pages_sized:
  assumes "list_all (\<lambda>p. sized p \<or> get_images p = []) ps"
  shows "redact_pages remove_text remove_qr ps n =
           Inr (map (redacted_page remove_text remove_qr) ps,
                n + sum_list (map (page_count remove_text remove_qr) ps))"
  using assms
proof (induction ps arbitrary: n)
  case Nil
  show ?case by simp
next
  case (Cons p ps)
  then have "redact_page remove_text remove_qr p n =
           Inr (redacted_page remove_text remove_qr p, n + page_count remove_text remove_qr p)"
    using redact_page_sized redact_page_no_images by auto
  then show ?case using Cons by (simp add: add.assoc)
qed

subsection \<open>What the redactor draws when it returns\<close>

lemma redact_rects_appends:
  "redact_rects pw ph rects (ds, n) = Inr (ds', n') \<Longrightarrow> \<exists>xs. ds' = ds @ xs"
proof (induction rects arbitrary: ds n)
  case Nil
  then show ?case by simp
next
  case (Cons r rects)
  then show ?case
    by (fastforce split: sum.splits if_splits)
qed

lemma redact_images_appends:
  "redact_images pw ph imgs (ds, n) = Inr (ds', n') \<Longrightarrow> \<exists>xs. ds' = ds @ xs"
proof (induction imgs arbitrary: ds n)
  case Nil
  then show ?case by simp
next
  case (Cons img imgs)
  from Cons.prems obtain ds1 n1 where
    a: "redact_rects pw ph (get_image_rects img) (ds, n) = Inr (ds1, n1)"
    and b: "redact_images pw ph imgs (ds1, n1) = Inr (ds', n')"
    by (auto split: sum.splits)
  from redact_rects_appends [OF a] Cons.IH [OF b] show ?case by auto
qed

lemma redact_page_returned:
  assumes "redact_page remove_text remove_qr p n = Inr (p', n')"
    and "remove_text \<or> remove_qr"
  shows "\<exists>ds. drawn p' = drawn p @ ds @
           [Draw_rect (Rect (width (rect p) * 0.5) (height (rect p) * 0.85)
                         (width (rect p) - 2) (height (rect p) - 2)) white white,
            Draw_rect (Rect (width (rect p) * 0.75) (height (rect p) * 0.85)
                         (width (rect p) - 2) (height (rect p) - 2)) white white]"
proof -
  let ?st1 = "if remove_text \<and> has_watermark (get_text p)
              then (drawn p @ [Draw_rect (watermark_rect (width (rect p)) (height (rect p)))
                                 white white], n + 1)
              else (drawn p, n)"
  obtain ds1 n1 where st1: "?st1 = (ds1, n1)" by (cases ?st1)
  then have pre: "\<exists>xs. ds1 = drawn p @ xs" by (auto split: if_splits)
  let ?mid = "if remove_qr
              then redact_images (width (rect p)) (height (rect p)) (get_images p) (ds1, n1)
              else Inr (ds1, n1)"
  have eq: "(case ?mid of
               Inl e \<Rightarrow> Inl e
             | Inr (ds, m) \<Rightarrow>
                 Inr (p\<lparr>drawn :=
                         (if remove_text \<or> remove_qr
                          then ds @ [Draw_rect (text_watermark_rect (width (rect p))
                                                  (height (rect p))) white white,
                                     Draw_rect (qr_rect (width (rect p)) (height (rect p)))
                                       white white]
                          else ds)\<rparr>, m)) = Inr (p', n')"
    using assms(1) unfolding redact_page_def Let_def st1 .
  obtain ds2 n2 where
    mid: "?mid = Inr (ds2, n2)"
    and p': "p' = p\<lparr>drawn :=
                     (if remove_text \<or> remove_qr
                      then ds2 @ [Draw_rect (text_watermark_rect (width (rect p)) (height (rect p)))
                                    white white,
                                  Draw_rect (qr_rect (width (rect p)) (height (rect p)))
                                    white white]
                      else ds2)\<rparr>"
  proof (cases ?mid)
    case (Inl e)
    then show ?thesis using eq by simp
  next
    case (Inr x)
    then show ?thesis using eq that by (cases x) auto
  qed
  from mid have "\<exists>xs. ds2 = ds1 @ xs"
    by (cases remove_qr) (auto dest: redact_images_appends)
  with pre obtain xs where "ds2 = drawn p @ xs" by auto
  then show ?thesis
    using p' assms(2) by (auto simp: text_watermark_rect_def qr_rect_def)
qed

lemma redact_page_rect:
  "redact_page remove_text remove_qr p n = Inr (p', n') \<Longrightarrow> rect p' = rect p"
  by (auto simp: redact_page_def Let_def split: sum.splits prod.splits)

lemma redact_pages_returned:
  assumes "redact_pages remove_text remove_qr ps n = Inr (ps', n')"
    and "remove_text \<or> remove_qr"
  shows "list_all2
           (\<lambda>q q'. \<exists>ds. drawn q' = drawn q @ ds @
              [Draw_rect (Rect (width (rect q) * 0.5) (height (rect q) * 0.85)
                            (width (rect q) - 2) (height (rect q) - 2)) white white,
               Draw_rect (Rect (width (rect q) * 0.75) (height (rect q) * 0.85)
                            (width (rect q) - 2) (height (rect q) - 2)) white white])
           ps ps'"
  using assms(1)
proof (induction ps arbitrary: n ps')
  case Nil
  then show ?case by simp
next
  case (Cons p ps)
  from Cons.prems obtain p1 n1 ps1 where
    a: "redact_page remove_text remove_qr p n = Inr (p1, n1)"
    and b: "redact_pages remove_text remove_qr ps n1 = Inr (ps1, n')"
    and c: "ps' = p1 # ps1"
    by (auto split: sum.splits prod.splits)
  from redact_page_returned [OF a assms(2)] Cons.IH [OF b] c show ?case by simp
qed

lemma redact_pages_length:
  "redact_pages remove_text remove_qr ps n = Inr (ps', n') \<Longrightarrow> length ps' = length ps"
proof (induction ps arbitrary: n ps')
  case Nil
  then show ?case by simp
next
  case (Cons p ps)
  then show ?case by (fastforce split: sum.splits prod.splits)
qed

lemma write_file_denotes:
  "write_file path f w = Some w1 \<Longrightarrow> fs w1 path = Some f"
  by (auto simp: write_file_def split: option.splits)

lemma remove_watermarks_returned:
  assumes "remove_watermarks ev p remove_text remove_qr w = Inr (out, w')"
    and "fs w p = Some doc"
  shows "\<exists>ps n. redact_pages remove_text remove_qr (pdf_pages doc) 0 = Inr (ps, n) \<and>
           out = clean_name p \<and>
           fs w' out = Some \<lparr>pdf_pages = ps, pdf_bytes = fitz_save ev ps\<rparr> \<and>
           printed w' = printed w @ [n]"
  using assms
  by (auto simp: remove_watermarks_def clean_name_def Let_def
      split: sum.splits prod.splits if_splits option.splits dest: write_file_denotes)

subsection \<open>A single directory\<close>

lemma write_file_flat:
  assumes "canon w = flat_dir" and "CHR ''/'' \<notin> set path"
  shows "write_file path f w = Some (w\<lparr>fs := (fs w)(path \<mapsto> f)\<rparr>)"
proof -
  have "(\<lambda>x. if flat_dir x = Some path then Some f else fs w x) = (fs w)(path \<mapsto> f)"
    using assms(2) by (auto simp: flat_dir_def fun_eq_iff)
  then show ?thesis using assms by (simp add: write_file_def flat_dir_def)
qed

lemma delete_file_flat:
  assumes "canon w = flat_dir"
  shows "delete_file path w = w\<lparr>fs := (fs w)(path := None)\<rparr>"
proof -
  have "(\<lambda>x. if x = path \<or> (flat_dir x \<noteq> None \<and> flat_dir x = flat_dir path)
             then None else fs w x) = (fs w)(path := None)"
    by (auto simp: flat_dir_def fun_eq_iff split: if_splits)
  then show ?thesis using assms by (simp add: delete_file_def)
qed

lemma cleanup_flat:
  assumes "canon w = flat_dir"
  shows "canon (cleanup fps m w) = flat_dir \<and> fs (cleanup fps m w) m = fs w m \<and>
         printed (cleanup fps m w) = printed w \<and> gs_runs (cleanup fps m w) = gs_runs w"
  using assms
proof (induction fps arbitrary: w)
  case Nil
  then show ?case by simp
next
  case (Cons fp fps)
  let ?w = "if fs w fp \<noteq> None \<and> fp \<noteq> m then delete_file fp w else w"
  have c: "canon ?w = flat_dir" and f: "fs ?w m = fs w m"
    and p: "printed ?w = printed w" and g: "gs_runs ?w = gs_runs w"
    using Cons.prems by (auto simp: delete_file_flat)
  from Cons.IH [OF c] f p g show ?case by simp
qed

lemma remove_watermarks_flat:
  assumes "canon w = flat_dir"
    and "fs w p = Some doc" and "readable doc" and "clean_name p \<noteq> p"
    and "CHR ''/'' \<notin> set p" and "CHR ''/'' \<notin> set (clean_name p)"
  shows "remove_watermarks ev p remove_text remove_qr w =
           Inr (clean_name p,
                w\<lparr>fs := (fs w)(clean_name p \<mapsto> redacted_doc ev remove_text remove_qr doc),
                  printed := printed w @ [doc_count remove_text remove_qr doc]\<rparr>)"
proof -
  have ne: "canon w (clean_name p) \<noteq> canon w p"
    using assms(1,4,5,6) by (simp add: flat_dir_def)
  have wr: "write_file (clean_name p) f w = Some (w\<lparr>fs := (fs w)(clean_name p \<mapsto> f)\<rparr>)" for f
    using write_file_flat [OF assms(1,6)] .
  show ?thesis
    using assms(2,3,4) ne
    by (simp add: remove_watermarks_def redact_pages_sized readable_def clean_name_def [symmetric]
        redacted_doc_def doc_count_def Let_def wr)
qed

subsection \<open>Runs of the pipeline\<close>

lemma returned_simps [simp]:
  "returned (Inl e) = None" "returned (Inr (x, w)) = Some x"
  "world_after (Inl e) = None" "world_after (Inr (x, w)) = Some w"
  by (simp_all add: returned_def world_after_def)

lemma process_loop_watermarks:
  "process_loop ev remove_text remove_qr merge n_files tw i rest tp processed w =
     Inr (Return (out, st), w1) \<Longrightarrow> watermarks st = tw"
proof (induction rest arbitrary: i tp processed w)
  case Nil
  then show ?case by simp
next
  case (Cons p rest)
  then show ?case
    by (auto simp: Let_def split: sum.splits option.splits prod.splits if_splits)
qed

lemma watermarks_always_zero:
  assumes "process ev file_paths remove_text remove_qr merge compress w = Inr ((out, st), w')"
  shows "watermarks st = 0"
proof (cases "process_loop ev remove_text remove_qr merge (length file_paths) 0 0 file_paths 0 [] w")
  case (Inl e)
  then show ?thesis using assms by (simp add: process_def)
next
  case (Inr r)
  obtain x w1 where r: "r = (x, w1)" by (cases r)
  show ?thesis
  proof (cases x)
    case (Return y)
    then have "y = (out, st)" using assms Inr r by (simp add: process_def)
    then show ?thesis using process_loop_watermarks Inr r Return by blast
  next
    case (Fallthrough tp processed)
    then show ?thesis using assms Inr r
      by (auto simp: process_def Let_def split: sum.splits option.splits prod.splits)
  qed
qed

lemma process_first_only:
  assumes "remove_watermarks ev p remove_text remove_qr w = Inr (clean_path, w1)"
    and "fs w p = Some doc"
  shows "\<exists>f. fs w1 clean_path = Some f \<and>
           process ev (p # ps) remove_text remove_qr False compress w =
             Inr ((clean_path,
                   \<lparr>pages = length (pdf_pages doc), files = length (p # ps), watermarks = 0,
                    size_mb = real (pdf_bytes f) / (1024 * 1024)\<rparr>), w1)"
proof -
  from remove_watermarks_returned [OF assms] obtain pgs n where
    r: "redact_pages remove_text remove_qr (pdf_pages doc) 0 = Inr (pgs, n)"
    and f: "fs w1 clean_path = Some \<lparr>pdf_pages = pgs, pdf_bytes = fitz_save ev pgs\<rparr>"
    by blast
  have "length pgs = length (pdf_pages doc)" using redact_pages_length [OF r] .
  then show ?thesis using assms(1) f by (simp add: process_def)
qed

lemma process_single_flat:
  assumes "canon w = flat_dir"
    and "fs w p = Some doc" and "readable doc" and "clean_name p \<noteq> p"
    and "CHR ''/'' \<notin> set p" and "CHR ''/'' \<notin> set (clean_name p)"
  shows "process ev [p] remove_text remove_qr True compress w =
           Inr ((clean_name p,
                 \<lparr>pages = length (pdf_pages doc), files = 1, watermarks = 0,
                  size_mb = py_round (real (pdf_bytes (redacted_doc ev remove_text remove_qr doc)) /
                            (1024 * 1024)) 2\<rparr>),
                w\<lparr>fs := (fs w)(clean_name p \<mapsto> redacted_doc ev remove_text remove_qr doc),
                  printed := printed w @ [doc_count remove_text remove_qr doc]\<rparr>)"
  using remove_watermarks_flat [OF assms, of ev remove_text remove_qr]
  by (simp add: process_def finish_def redacted_doc_def)

lemma process_no_merge_flat:
  assumes "canon w = flat_dir"
    and "fs w p = Some doc" and "readable doc" and "clean_name p \<noteq> p"
    and "CHR ''/'' \<notin> set p" and "CHR ''/'' \<notin> set (clean_name p)"
  shows "process ev (p # ps) remove_text remove_qr False compress w =
           Inr ((clean_name p,
                 \<lparr>pages = length (pdf_pages doc), files = length (p # ps), watermarks = 0,
                  size_mb = real (pdf_bytes (redacted_doc ev remove_text remove_qr doc)) /
                            (1024 * 1024)\<rparr>),
                w\<lparr>fs := (fs w)(clean_name p \<mapsto> redacted_doc ev remove_text remove_qr doc),
                  printed := printed w @ [doc_count remove_text remove_qr doc]\<rparr>)"
  using remove_watermarks_flat [OF assms, of ev remove_text remove_qr]
  by (simp add: process_def redacted_doc_def)

subsection \<open>Two files in a single directory\<close>

lemma process_loop_two_flat:
  assumes "canon w = flat_dir"
    and "fs w p = Some dp" and "readable dp" and "clean_name p \<noteq> p"
    and "CHR ''/'' \<notin> set p" and "CHR ''/'' \<notin> set (clean_name p)"
    and "((fs w)(clean_name p \<mapsto> redacted_doc ev remove_text remove_qr dp)) q = Some dq"
    and "readable dq" and "clean_name q \<noteq> q"
    and "CHR ''/'' \<notin> set q" and "CHR ''/'' \<notin> set (clean_name q)"
    and "clean_name p \<noteq> clean_name q"
  shows "process_loop ev remove_text remove_qr True n_files tw 0 [p, q] 0 [] w =
           Inr (Fallthrough (length (pdf_pages dp) + length (pdf_pages dq))
                  [clean_name p, clean_name q],
                w\<lparr>fs := (fs w)(clean_name p \<mapsto> redacted_doc ev remove_text remove_qr dp,
                                 clean_name q \<mapsto> redacted_doc ev remove_text remove_qr dq),
                  printed := printed w @ [doc_count remove_text remove_qr dp,
                                          doc_count remove_text remove_qr dq]\<rparr>)"
proof -
  let ?w1 = "w\<lparr>fs := (fs w)(clean_name p \<mapsto> redacted_doc ev remove_text remove_qr dp),
                printed := printed w @ [doc_count remove_text remove_qr dp]\<rparr>"
  have r1: "remove_watermarks ev p remove_text remove_qr w = Inr (clean_name p, ?w1)"
    using remove_watermarks_flat [OF assms(1-6)] .
  have c1: "canon ?w1 = flat_dir" using assms(1) by simp
  have q1: "fs ?w1 q = Some dq" using assms(7) by simp
  have r2: "remove_watermarks ev q remove_text remove_qr ?w1 =
     Inr (clean_name q,
          ?w1\<lparr>fs := (fs ?w1)(clean_name q \<mapsto> redacted_doc ev remove_text remove_qr dq),
              printed := printed ?w1 @ [doc_count remove_text remove_qr dq]\<rparr>)"
    using remove_watermarks_flat [OF c1 q1 assms(8-11)] .
  show ?thesis
    using r1 r2 assms(12) by (simp add: redacted_doc_def)
qed

lemma merge_two_flat:
  assumes "canon w = flat_dir"
    and "fs w a = Some da" and "fs w b = Some db"
    and "CHR ''/'' \<notin> set (merged_name a)"
  shows "merge_pdfs ev [a, b] w =
           Inr (merged_name a,
                w\<lparr>fs := (fs w)(merged_name a \<mapsto>
                       \<lparr>pdf_pages = pdf_pages da @ pdf_pages db,
                        pdf_bytes = pypdf_write ev (pdf_pages da @ pdf_pages db)\<rparr>)\<rparr>)"
  using assms(2,3) write_file_flat [OF assms(1,4)]
  by (simp add: merge_pdfs_def merged_name_def [symmetric] Let_def)

lemma process_two_flat:
  assumes "canon w = flat_dir"
    and "fs w p = Some dp" and "readable dp" and "clean_name p \<noteq> p"
    and "CHR ''/'' \<notin> set p" and "CHR ''/'' \<notin> set (clean_name p)"
    and "((fs w)(clean_name p \<mapsto> redacted_doc ev remove_text remove_qr dp)) q = Some dq"
    and "readable dq" and "clean_name q \<noteq> q"
    and "CHR ''/'' \<notin> set q" and "CHR ''/'' \<notin> set (clean_name q)"
    and "clean_name p \<noteq> clean_name q"
    and "CHR ''/'' \<notin> set (merged_name (clean_name p))"
  shows "\<exists>st w'. process ev [p, q] remove_text remove_qr True False w =
             Inr ((merged_name (clean_name p), st), w') \<and>
           pages_at (merged_name (clean_name p)) w' =
             Some (map (redacted_page remove_text remove_qr) (pdf_pages dp) @
                   map (redacted_page remove_text remove_qr) (pdf_pages dq)) \<and>
           pages st = length (pdf_pages dp) + length (pdf_pages dq) \<and> files st = 2 \<and>
           watermarks st = 0 \<and>
           printed w' = printed w @ [doc_count remove_text remove_qr dp,
                                      doc_count remove_text remove_qr dq] \<and>
           gs_runs w' = gs_runs w"
proof -
  let ?rp = "redacted_doc ev remove_text remove_qr dp"
  let ?rq = "redacted_doc ev remove_text remove_qr dq"
  let ?w2 = "w\<lparr>fs := (fs w)(clean_name p \<mapsto> ?rp, clean_name q \<mapsto> ?rq),
                printed := printed w @ [doc_count remove_text remove_qr dp,
                                        doc_count remove_text remove_qr dq]\<rparr>"
  let ?m = "merged_name (clean_name p)"
  let ?f = "\<lparr>pdf_pages = pdf_pages ?rp @ pdf_pages ?rq,
             pdf_bytes = pypdf_write ev (pdf_pages ?rp @ pdf_pages ?rq)\<rparr>"
  let ?w3 = "?w2\<lparr>fs := (fs ?w2)(?m \<mapsto> ?f)\<rparr>"
  have loop: "process_loop ev remove_text remove_qr True (length [p, q]) 0 0 [p, q] 0 [] w =
      Inr (Fallthrough (length (pdf_pages dp) + length (pdf_pages dq))
             [clean_name p, clean_name q], ?w2)"
    using process_loop_two_flat [OF assms(1-12)] .
  have c2: "canon ?w2 = flat_dir" using assms(1) by simp
  have a: "fs ?w2 (clean_name p) = Some ?rp" using assms(12) by simp
  have b: "fs ?w2 (clean_name q) = Some ?rq" by simp
  have mp: "merge_pdfs ev [clean_name p, clean_name q] ?w2 = Inr (?m, ?w3)"
    using merge_two_flat [OF c2 a b assms(13)] .
  have c3: "canon ?w3 = flat_dir" using assms(1) by simp
  let ?w4 = "cleanup [clean_name p, clean_name q] ?m ?w3"
  have fin: "finish ev True False [clean_name p, clean_name q] ?w2 = Inr (?m, ?w4)"
    using mp by (simp add: finish_def Let_def)
  have keep: "fs ?w4 ?m = Some ?f" "printed ?w4 = printed ?w3" "gs_runs ?w4 = gs_runs ?w3"
    using cleanup_flat [OF c3, of "[clean_name p, clean_name q]" ?m] by simp_all
  have "process ev [p, q] remove_text remove_qr True False w =
      Inr ((?m, \<lparr>pages = length (pdf_pages dp) + length (pdf_pages dq), files = 2,
                 watermarks = 0,
                 size_mb = py_round (real (pdf_bytes ?f) / (1024 * 1024)) 2\<rparr>), ?w4)"
    using loop fin keep(1) by (simp add: process_def)
  moreover have "pages_at ?m ?w4 =
      Some (map (redacted_page remove_text remove_qr) (pdf_pages dp) @
            map (redacted_page remove_text remove_qr) (pdf_pages dq))"
    using keep(1) by (simp add: pages_at_def redacted_doc_def)
  moreover have "printed ?w4 = printed w @ [doc_count remove_text remove_qr dp,
                                      doc_count remove_text remove_qr dq]"
    using keep(2) by simp
  moreover have "gs_runs ?w4 = gs_runs w" using keep(3) by simp
  ultimately show ?thesis by simp
qed

lemma finish_compress_fails:
  assumes "merge_pdfs ev processed w = Inr (m, w1)"
    and "1 < length processed"
    and "gs_installed ev \<longrightarrow> (\<forall>f. gs_convert ev f = None)"
  shows "finish ev True True processed w = Inl FileNotFoundError \<or>
         (\<exists>w'. finish ev True True processed w = Inr (m, w') \<and> fs w' m = None)"
proof -
  let ?w2 = "cleanup processed m w1"
  show ?thesis
  proof (cases "gs_installed ev")
    case False
    then show ?thesis using assms(1,2) by (simp add: finish_def compress_pdf_def Let_def)
  next
    case True
    then have none: "\<forall>f. gs_convert ev f = None" using assms(3) by simp
    have cp: "compress_pdf ev m ?w2 = Inr (m, ?w2\<lparr>gs_runs := gs_runs ?w2 @ [m]\<rparr>)"
      using True none by (auto simp: compress_pdf_def Let_def split: option.splits)
    show ?thesis
    proof (cases "fs ?w2 m")
      case None
      then show ?thesis using assms(1,2) cp by (simp add: finish_def Let_def os_remove_def)
    next
      case (Some f)
      then show ?thesis using assms(1,2) cp
        by (simp add: finish_def Let_def os_remove_def delete_file_def)
    qed
  qed
qed

lemma process_two_flat_compress_fails:
  assumes "canon w = flat_dir"
    and "fs w p = Some dp" and "readable dp" and "clean_name p \<noteq> p"
    and "CHR ''/'' \<notin> set p" and "CHR ''/'' \<notin> set (clean_name p)"
    and "((fs w)(clean_name p \<mapsto> redacted_doc ev remove_text remove_qr dp)) q = Some dq"
    and "readable dq" and "clean_name q \<noteq> q"
    and "CHR ''/'' \<notin> set q" and "CHR ''/'' \<notin> set (clean_name q)"
    and "clean_name p \<noteq> clean_name q"
    and "CHR ''/'' \<notin> set (merged_name (clean_name p))"
    and "gs_installed ev \<longrightarrow> (\<forall>f. gs_convert ev f = None)"
  shows "process ev [p, q] remove_text remove_qr True True w = Inl FileNotFoundError"
proof -
  let ?rp = "redacted_doc ev remove_text remove_qr dp"
  let ?rq = "redacted_doc ev remove_text remove_qr dq"
  let ?w2 = "w\<lparr>fs := (fs w)(clean_name p \<mapsto> ?rp, clean_name q \<mapsto> ?rq),
                printed := printed w @ [doc_count remove_text remove_qr dp,
                                        doc_count remove_text remove_qr dq]\<rparr>"
  have loop: "process_loop ev remove_text remove_qr True (length [p, q]) 0 0 [p, q] 0 [] w =
      Inr (Fallthrough (length (pdf_pages dp) + length (pdf_pages dq))
             [clean_name p, clean_name q], ?w2)"
    using process_loop_two_flat [OF assms(1-12)] .
  have c2: "canon ?w2 = flat_dir" using assms(1) by simp
  have a: "fs ?w2 (clean_name p) = Some ?rp" using assms(12) by simp
  have b: "fs ?w2 (clean_name q) = Some ?rq" by simp
  from merge_two_flat [OF c2 a b assms(13), of ev] obtain w3 where
    mp: "merge_pdfs ev [clean_name p, clean_name q] ?w2 = Inr (merged_name (clean_name p), w3)"
    by blast
  have len: "1 < length [clean_name p, clean_name q]" by simp
  from finish_compress_fails [OF mp len assms(14)]
  show ?thesis using loop by (auto simp: process_def)
qed

lemma remove_watermarks_path:
  "remove_watermarks ev p remove_text remove_qr w = Inr (c, w') \<Longrightarrow> c = clean_name p"
  by (auto simp: remove_watermarks_def clean_name_def Let_def
      split: option.splits sum.splits if_splits)

lemma process_loop_merge_exit:
  "process_loop ev remove_text remove_qr True n_files tw i rest tp processed w = Inr (x, w1) \<Longrightarrow>
     \<exists>tp'. x = Fallthrough tp' (processed @ map clean_name rest)"
proof (induction rest arbitrary: i tp processed w)
  case Nil
  then show ?case by auto
next
  case (Cons p rest)
  from Cons.prems obtain c w0 doc where
    rw: "remove_watermarks ev p remove_text remove_qr w = Inr (c, w0)"
    and d: "fs w0 c = Some doc"
    and rec: "process_loop ev remove_text remove_qr True n_files tw (i + 1) rest
                (tp + length (pdf_pages doc)) (processed @ [c]) w0 = Inr (x, w1)"
    by (auto simp: Let_def split: sum.splits option.splits)
  from Cons.IH [OF rec] remove_watermarks_path [OF rw] show ?case by auto
qed

lemma process_compress_fails:
  assumes "1 < length file_paths"
    and "gs_installed ev \<longrightarrow> (\<forall>f. gs_convert ev f = None)"
  shows "returned (process ev file_paths remove_text remove_qr True True w) = None"
proof (cases "process_loop ev remove_text remove_qr True (length file_paths) 0 0 file_paths 0 [] w")
  case (Inl e)
  then show ?thesis by (simp add: process_def)
next
  case (Inr r)
  obtain x w1 where r: "r = (x, w1)" by (cases r)
  from process_loop_merge_exit [of ev remove_text remove_qr "length file_paths" 0 0 file_paths 0 "[]" w x w1]
    Inr r obtain tp where x: "x = Fallthrough tp (map clean_name file_paths)" by auto
  have len: "1 < length (map clean_name file_paths)" using assms(1) by simp
  show ?thesis
  proof (cases "merge_pdfs ev (map clean_name file_paths) w1")
    case (Inl e)
    then show ?thesis using Inr r x len by (simp add: process_def finish_def)
  next
    case mp: (Inr y)
    obtain m w2 where y: "y = (m, w2)" by (cases y)
    from finish_compress_fails [OF mp [unfolded y] len assms(2)]
    show ?thesis using Inr r x by (auto simp: process_def)
  qed
qed

lemma normal_return_rounds:
  assumes "process ev file_paths remove_text remove_qr True compress w = Inr ((out, st), w')"
  shows "\<exists>f. fs w' out = Some f \<and> size_mb st = py_round (real (pdf_bytes f) / (1024 * 1024)) 2"
proof (cases "process_loop ev remove_text remove_qr True (length file_paths) 0 0 file_paths 0 [] w")
  case (Inl e)
  then show ?thesis using assms by (simp add: process_def)
next
  case (Inr r)
  obtain x w1 where r: "r = (x, w1)" by (cases r)
  from process_loop_merge_exit [of ev remove_text remove_qr "length file_paths" 0 0 file_paths 0 "[]" w x w1]
    Inr r obtain tp where x: "x = Fallthrough tp (map clean_name file_paths)" by auto
  show ?thesis using assms Inr r x
    by (auto simp: process_def Let_def split: sum.splits option.splits)
qed

subsection \<open>The scan in closed form\<close>

lemma scan_heuristic_total:
  "pw \<noteq> 0 \<Longrightarrow> ph \<noteq> 0 \<Longrightarrow> \<exists>b. scan_heuristic pw ph r = Inr b"
  by (simp add: scan_heuristic_def Let_def)

lemma scan_rects_sized:
  assumes "pw \<noteq> 0" and "ph \<noteq> 0"
  shows "scan_rects n pw ph rects res =
           Inr (res\<lparr>has_qr_watermark :=
                      has_qr_watermark res \<or>
                      filter (\<lambda>r. scan_heuristic pw ph r = Inr True) rects \<noteq> [],
                    image_details := image_details res @
                      map (\<lambda>r. \<lparr>detail_page = n + 1,
                                detail_position = (x0 r / pw, y0 r / ph),
                                detail_extent = (width r, height r)\<rparr>)
                        (filter (\<lambda>r. scan_heuristic pw ph r = Inr True) rects)\<rparr>)"
proof (induction rects arbitrary: res)
  case Nil
  show ?case by simp
next
  case (Cons r rects)
  from assms obtain b where b: "scan_heuristic pw ph r = Inr b"
    using scan_heuristic_total by blast
  show ?case using Cons.IH b by (cases b) simp_all
qed

lemma scan_images_sized:
  assumes "pw \<noteq> 0" and "ph \<noteq> 0"
  shows "scan_images n pw ph imgs res =
           Inr (res\<lparr>has_qr_watermark :=
                      has_qr_watermark res \<or>
                      filter (\<lambda>r. scan_heuristic pw ph r = Inr True)
                        (concat (map get_image_rects imgs)) \<noteq> [],
                    image_details := image_details res @
                      map (\<lambda>r. \<lparr>detail_page = n + 1,
                                detail_position = (x0 r / pw, y0 r / ph),
                                detail_extent = (width r, height r)\<rparr>)
                        (filter (\<lambda>r. scan_heuristic pw ph r = Inr True)
                           (concat (map get_image_rects imgs)))\<rparr>)"
proof (induction imgs arbitrary: res)
  case Nil
  show ?case by simp
next
  case (Cons img imgs)
  show ?case
    by (simp add: scan_rects_sized [OF assms] Cons.IH disj_assoc)
qed

lemma scan_page_images:
  assumes "sized p \<or> get_images p = []"
  shows "scan_images n (width (rect p)) (height (rect p)) (get_images p) res =
           Inr (res\<lparr>has_qr_watermark := has_qr_watermark res \<or> page_details n p \<noteq> [],
                    image_details := image_details res @ page_details n p\<rparr>)"
proof (cases "get_images p = []")
  case True
  then show ?thesis by (simp add: page_details_def page_rects_def)
next
  case False
  then have "width (rect p) \<noteq> 0" "height (rect p) \<noteq> 0" using assms by (auto simp: sized_def)
  then show ?thesis by (simp add: scan_images_sized page_details_def page_rects_def)
qed

lemma scan_pages_readable:
  assumes "list_all (\<lambda>p. sized p \<or> get_images p = []) ps"
  shows "\<exists>res'. scan_pages n ps res = Inr res' \<and>
           has_qr_watermark res' = (has_qr_watermark res \<or> doc_details n ps \<noteq> []) \<and>
           image_details res' = image_details res @ doc_details n ps \<and>
           has_text_watermark res' =
             (has_text_watermark res \<or> list_ex (\<lambda>p. has_watermark (get_text p)) ps) \<and>
           report_images res' = report_images res + sum_list (map (\<lambda>p. length (get_images p)) ps) \<and>
           report_pages res' = report_pages res \<and>
           text_details res' = text_details res"
  using assms
proof (induction ps arbitrary: n res)
  case Nil
  show ?case by (simp add: doc_details_def)
next
  case (Cons p ps)
  let ?r2 = "(if has_watermark (get_text p) then res\<lparr>has_text_watermark := True\<rparr> else res)
               \<lparr>report_images := report_images
                  (if has_watermark (get_text p) then res\<lparr>has_text_watermark := True\<rparr> else res) +
                  length (get_images p)\<rparr>"
  let ?r3 = "?r2\<lparr>has_qr_watermark := has_qr_watermark ?r2 \<or> page_details n p \<noteq> [],
                 image_details := image_details ?r2 @ page_details n p\<rparr>"
  have p: "sized p \<or> get_images p = []" and ps: "list_all (\<lambda>p. sized p \<or> get_images p = []) ps"
    using Cons.prems by simp_all
  have step: "scan_pages n (p # ps) res = scan_pages (n + 1) ps ?r3"
    by (simp add: Let_def scan_page_images [OF p])
  have "[n..<n + length (p # ps)] = n # [Suc n..<n + length (p # ps)]"
    by (rule upt_conv_Cons) simp
  then have e: "[n..<n + length (p # ps)] = n # [n + 1..<n + 1 + length ps]"
    by (simp del: upt_Suc)
  have dd: "doc_details n (p # ps) = page_details n p @ doc_details (n + 1) ps"
    unfolding doc_details_def e by simp
  from Cons.IH [OF ps, of "n + 1" ?r3] obtain res' where
    "scan_pages (n + 1) ps ?r3 = Inr res'"
    "has_qr_watermark res' = (has_qr_watermark ?r3 \<or> doc_details (n + 1) ps \<noteq> [])"
    "image_details res' = image_details ?r3 @ doc_details (n + 1) ps"
    "has_text_watermark res' =
       (has_text_watermark ?r3 \<or> list_ex (\<lambda>p. has_watermark (get_text p)) ps)"
    "report_images res' = report_images ?r3 + sum_list (map (\<lambda>p. length (get_images p)) ps)"
    "report_pages res' = report_pages ?r3"
    "text_details res' = text_details ?r3"
    by blast
  then show ?case using step dd by auto
qed

lemma scan_pdf_readable:
  assumes "fs w p = Some doc" and "readable doc"
  shows "\<exists>report. scan_pdf p w = Inr report \<and>
           has_qr_watermark report = (doc_details 0 (pdf_pages doc) \<noteq> []) \<and>
           image_details report = doc_details 0 (pdf_pages doc) \<and>
           report_pages report = length (pdf_pages doc)"
proof -
  let ?init = "\<lparr>report_pages = length (pdf_pages doc), report_images = 0,
                has_text_watermark = False, has_qr_watermark = False,
                text_details = [], image_details = []\<rparr>"
  from assms(2) have ne: "pdf_pages doc \<noteq> []"
    and ok: "list_all (\<lambda>p. sized p \<or> get_images p = []) (pdf_pages doc)"
    by (simp_all add: readable_def)
  from scan_pages_readable [OF ok, of 0 ?init] obtain res' where
    "scan_pages 0 (pdf_pages doc) ?init = Inr res'"
    "has_qr_watermark res' = (doc_details 0 (pdf_pages doc) \<noteq> [])"
    "image_details res' = doc_details 0 (pdf_pages doc)"
    "report_pages res' = length (pdf_pages doc)"
    by auto
  then show ?thesis using assms(1) ne
    by (cases "pdf_pages doc") (auto simp: scan_pdf_def)
qed

lemma scan_pdf_no_page:
  assumes "fs w p = Some doc" and "pdf_pages doc = []"
  shows "scan_pdf p w = Inl IndexError"
  using assms by (simp add: scan_pdf_def)

lemma doc_details_Nil [simp]: "doc_details n [] = []"
  by (simp add: doc_details_def)

lemma doc_details_Cons:
  "doc_details n (p # ps) = page_details n p @ doc_details (n + 1) ps"
proof -
  have "[n..<n + length (p # ps)] = n # [Suc n..<n + length (p # ps)]"
    by (rule upt_conv_Cons) simp
  then have e: "[n..<n + length (p # ps)] = n # [n + 1..<n + 1 + length ps]"
    by (simp del: upt_Suc)
  show ?thesis unfolding doc_details_def e by simp
qed

lemma page_details_bounds:
  assumes "sized p \<or> get_images p = []"
  shows "page_details n p =
           map (\<lambda>r. \<lparr>detail_page = n + 1,
                     detail_position = (x0 r / width (rect p), y0 r / height (rect p)),
                     detail_extent = (width r, height r)\<rparr>)
             (filter (\<lambda>r. 0.65 < x0 r / width (rect p) \<and> 0.7 < y0 r / height (rect p) \<and>
                          width r * height r < 20000)
                (page_rects p))"
proof (cases "get_images p = []")
  case True
  then show ?thesis by (simp add: page_details_def page_rects_def)
next
  case False
  then have "width (rect p) \<noteq> 0" "height (rect p) \<noteq> 0" using assms by (auto simp: sized_def)
  then have "(\<lambda>r. scan_heuristic (width (rect p)) (height (rect p)) r = Inr True) =
     (\<lambda>r. 0.65 < x0 r / width (rect p) \<and> 0.7 < y0 r / height (rect p) \<and>
                          width r * height r < 20000)"
    by (auto simp: scan_heuristic_def Let_def)
  then show ?thesis by (simp add: page_details_def)
qed

lemma doc_details_bounds:
  assumes "list_all (\<lambda>p. sized p \<or> get_images p = []) ps"
  shows "doc_details n ps =
           concat (map (\<lambda>(i, q).
                     map (\<lambda>r. \<lparr>detail_page = i + 1,
                               detail_position = (x0 r / width (rect q), y0 r / height (rect q)),
                               detail_extent = (width r, height r)\<rparr>)
                       (filter (\<lambda>r. 0.65 < x0 r / width (rect q) \<and>
                                    0.7 < y0 r / height (rect q) \<and>
                                    width r * height r < 20000)
                          (page_rects q)))
                   (zip [n..<n + length ps] ps))"
  using assms
proof (induction ps arbitrary: n)
  case Nil
  show ?case by simp
next
  case (Cons p ps)
  have "[n..<n + length (p # ps)] = n # [Suc n..<n + length (p # ps)]"
    by (rule upt_conv_Cons) simp
  then have e: "[n..<n + length (p # ps)] = n # [n + 1..<n + 1 + length ps]"
    by (simp del: upt_Suc)
  from Cons.prems have p: "sized p \<or> get_images p = []"
    and ps: "list_all (\<lambda>p. sized p \<or> get_images p = []) ps" by simp_all
  show ?case
    unfolding e doc_details_Cons page_details_bounds [OF p] Cons.IH [OF ps] by simp
qed

lemma doc_details_nonempty:
  assumes "list_all (\<lambda>p. sized p \<or> get_images p = []) ps"
  shows "(doc_details n ps \<noteq> []) =
           (\<exists>q\<in>set ps. \<exists>r\<in>set (page_rects q).
               0.65 < x0 r / width (rect q) \<and> 0.7 < y0 r / height (rect q) \<and>
               width r * height r < 20000)"
  using assms
proof (induction ps arbitrary: n)
  case Nil
  show ?case by simp
next
  case (Cons p ps)
  from Cons.prems have p: "sized p \<or> get_images p = []"
    and ps: "list_all (\<lambda>p. sized p \<or> get_images p = []) ps" by simp_all
  show ?case
    unfolding doc_details_Cons page_details_bounds [OF p]
    using Cons.IH [OF ps, of "n + 1"] by (auto simp: filter_empty_conv)
qed

subsection \<open>The example documents\<close>

lemma clean_name_examples:
  "clean_name ''a.pdf'' = ''a_clean.pdf''" "clean_name ''b.pdf'' = ''b_clean.pdf''"
  "clean_name ''x.pdf'' = ''x_clean.pdf''" "clean_name ''x_clean.pdf'' = ''x_clean_clean.pdf''"
  by (simp_all add: clean_name_def replace_def replace_from.simps)

lemma merged_name_examples:
  "merged_name ''a_clean.pdf'' = ''a_clean_merged.pdf''"
  "merged_name ''x_clean.pdf'' = ''x_clean_merged.pdf''"
  by (simp_all add: merged_name_def replace_def replace_from.simps)

lemma sized_examples: "sized banner_page" "sized stamp_page" "sized (plain_page k)"
  by (simp_all add: sized_def banner_page_def stamp_page_def plain_page_def Rect_def
        width_def height_def)

lemma readable_redacted:
  "readable doc \<Longrightarrow> readable (redacted_doc ev remove_text remove_qr doc)"
  by (simp add: readable_def redacted_doc_def list_all_iff redacted_page_def sized_def)

lemma has_watermark_banner: "has_watermark (get_text banner_page)"
  by (simp add: has_watermark_def banner_page_def zh_keywords_def en_keywords_def lower_def)

lemma has_watermark_empty: "\<not> has_watermark []"
  by (simp add: has_watermark_def zh_keywords_def en_keywords_def lower_def)

lemma page_count_examples:
  "page_count True True banner_page = 1" "page_count True True stamp_page = 0"
  "page_count True True (plain_page k) = 0"
  using has_watermark_banner has_watermark_empty
  by (simp_all add: page_count_def page_rects_def banner_page_def stamp_page_def plain_page_def
        is_watermark_rect_def region_heuristic_def Rect_def width_def height_def Let_def)

lemma scenario_files:
  "fs scenario ''a.pdf'' = Some \<lparr>pdf_pages = [banner_page], pdf_bytes = 5000\<rparr>"
  "fs scenario ''b.pdf'' = Some \<lparr>pdf_pages = [stamp_page], pdf_bytes = 6000\<rparr>"
  "printed scenario = []" "gs_runs scenario = []" "canon scenario = flat_dir"
  by (simp_all add: scenario_def)

lemma two_and_three_files:
  "fs two_and_three ''a.pdf'' = Some \<lparr>pdf_pages = [plain_page 1, plain_page 2], pdf_bytes = 5000\<rparr>"
  "fs two_and_three ''b.pdf'' =
     Some \<lparr>pdf_pages = [plain_page 3, plain_page 4, plain_page 5], pdf_bytes = 6000\<rparr>"
  "printed two_and_three = []" "gs_runs two_and_three = []" "canon two_and_three = flat_dir"
  by (simp_all add: two_and_three_def)

lemma name_clash_files:
  "fs name_clash ''x.pdf'' = Some \<lparr>pdf_pages = [plain_page 1, plain_page 2], pdf_bytes = 5000\<rparr>"
  "fs name_clash ''x_clean.pdf'' =
     Some \<lparr>pdf_pages = [plain_page 3, plain_page 4, plain_page 5], pdf_bytes = 6000\<rparr>"
  "printed name_clash = []" "gs_runs name_clash = []" "canon name_clash = flat_dir"
  by (simp_all add: name_clash_def)

lemma readable_examples:
  "readable \<lparr>pdf_pages = [banner_page], pdf_bytes = n\<rparr>"
  "readable \<lparr>pdf_pages = [stamp_page], pdf_bytes = n\<rparr>"
  "readable \<lparr>pdf_pages = [plain_page i, plain_page j], pdf_bytes = n\<rparr>"
  "readable \<lparr>pdf_pages = [plain_page i, plain_page j, plain_page k], pdf_bytes = n\<rparr>"
  by (simp_all add: readable_def sized_examples)

lemma stamp_page_facts:
  "width (rect stamp_page) = 600" "height (rect stamp_page) = 800"
  "page_rects stamp_page = [Rect 510 720 610 820]"
  "x0 (Rect 510 720 610 820) = 510" "y0 (Rect 510 720 610 820) = 720"
  "width (Rect 510 720 610 820) = 100" "height (Rect 510 720 610 820) = 100"
  by (simp_all add: stamp_page_def page_rects_def Rect_def width_def height_def)

lemma stamp_readable: "readable \<lparr>pdf_pages = [stamp_page], pdf_bytes = 6000\<rparr>"
  by (simp add: readable_def sized_examples)

text \<open>The runs of the examples.\<close>

lemma scenario_run:
  "\<exists>st w'. process ev [''a.pdf'', ''b.pdf''] True True True False scenario =
             Inr ((''a_clean_merged.pdf'', st), w') \<and>
           pages st = 2 \<and> files st = 2 \<and> watermarks st = 0 \<and> printed w' = [1, 0]"
proof -
  have "\<exists>st w'. process ev [''a.pdf'', ''b.pdf''] True True True False scenario =
             Inr ((merged_name (clean_name ''a.pdf''), st), w') \<and>
           pages_at (merged_name (clean_name ''a.pdf'')) w' =
             Some (map (redacted_page True True)
                     (pdf_pages \<lparr>pdf_pages = [banner_page], pdf_bytes = 5000\<rparr>) @
                   map (redacted_page True True)
                     (pdf_pages \<lparr>pdf_pages = [stamp_page], pdf_bytes = 6000\<rparr>)) \<and>
           pages st = length (pdf_pages \<lparr>pdf_pages = [banner_page], pdf_bytes = 5000\<rparr>) +
                      length (pdf_pages \<lparr>pdf_pages = [stamp_page], pdf_bytes = 6000\<rparr>) \<and>
           files st = 2 \<and> watermarks st = 0 \<and>
           printed w' = printed scenario @
             [doc_count True True \<lparr>pdf_pages = [banner_page], pdf_bytes = 5000\<rparr>,
              doc_count True True \<lparr>pdf_pages = [stamp_page], pdf_bytes = 6000\<rparr>] \<and>
           gs_runs w' = gs_runs scenario"
    by (rule process_two_flat)
       (simp_all add: clean_name_examples merged_name_examples scenario_files readable_examples)
  then obtain st w' where
    "process ev [''a.pdf'', ''b.pdf''] True True True False scenario =
       Inr ((''a_clean_merged.pdf'', st), w')"
    and "pages st = 2" and "files st = 2" and "watermarks st = 0" and "printed w' = [1, 0]"
    by (auto simp: clean_name_examples merged_name_examples scenario_files doc_count_def
        page_count_examples)
  then show ?thesis by blast
qed

lemma scenario_run_compress_fails:
  assumes "gs_installed ev \<longrightarrow> (\<forall>f. gs_convert ev f = None)"
  shows "process ev [''a.pdf'', ''b.pdf''] True True True True scenario = Inl FileNotFoundError"
  by (rule process_two_flat_compress_fails
        [where dp = "\<lparr>pdf_pages = [banner_page], pdf_bytes = 5000\<rparr>"
           and dq = "\<lparr>pdf_pages = [stamp_page], pdf_bytes = 6000\<rparr>"])
     (simp_all add: assms clean_name_examples merged_name_examples scenario_files
        readable_examples)

lemma two_and_three_run:
  "\<exists>st w'. process ev [''a.pdf'', ''b.pdf''] True True True False two_and_three =
             Inr ((''a_clean_merged.pdf'', st), w') \<and>
           pages_at ''a_clean_merged.pdf'' w' =
             Some (map (redacted_page True True)
                     [plain_page 1, plain_page 2, plain_page 3, plain_page 4, plain_page 5]) \<and>
           pages st = 5"
proof -
  have "\<exists>st w'. process ev [''a.pdf'', ''b.pdf''] True True True False two_and_three =
             Inr ((merged_name (clean_name ''a.pdf''), st), w') \<and>
           pages_at (merged_name (clean_name ''a.pdf'')) w' =
             Some (map (redacted_page True True)
                     (pdf_pages \<lparr>pdf_pages = [plain_page 1, plain_page 2], pdf_bytes = 5000\<rparr>) @
                   map (redacted_page True True)
                     (pdf_pages \<lparr>pdf_pages = [plain_page 3, plain_page 4, plain_page 5],
                                 pdf_bytes = 6000\<rparr>)) \<and>
           pages st =
             length (pdf_pages \<lparr>pdf_pages = [plain_page 1, plain_page 2], pdf_bytes = 5000\<rparr>) +
             length (pdf_pages \<lparr>pdf_pages = [plain_page 3, plain_page 4, plain_page 5],
                                 pdf_bytes = 6000\<rparr>) \<and>
           files st = 2 \<and> watermarks st = 0 \<and>
           printed w' = printed two_and_three @
             [doc_count True True \<lparr>pdf_pages = [plain_page 1, plain_page 2], pdf_bytes = 5000\<rparr>,
              doc_count True True \<lparr>pdf_pages = [plain_page 3, plain_page 4, plain_page 5],
                                    pdf_bytes = 6000\<rparr>] \<and>
           gs_runs w' = gs_runs two_and_three"
    by (rule process_two_flat)
       (simp_all add: clean_name_examples merged_name_examples two_and_three_files
          readable_examples)
  then obtain st w' where
    "process ev [''a.pdf'', ''b.pdf''] True True True False two_and_three =
       Inr ((''a_clean_merged.pdf'', st), w')"
    and "pages_at ''a_clean_merged.pdf'' w' =
           Some (map (redacted_page True True)
                   [plain_page 1, plain_page 2, plain_page 3, plain_page 4, plain_page 5])"
    and "pages st = 5"
    by (auto simp: clean_name_examples merged_name_examples)
  then show ?thesis by blast
qed

lemma name_clash_run:
  "\<exists>st w'. process ev [''x.pdf'', ''x_clean.pdf''] True True True False name_clash =
             Inr ((''x_clean_merged.pdf'', st), w') \<and>
           pages_at ''x_clean_merged.pdf'' w' =
             Some [redacted_page True True (plain_page 1), redacted_page True True (plain_page 2),
                   redacted_page True True (redacted_page True True (plain_page 1)),
                   redacted_page True True (redacted_page True True (plain_page 2))] \<and>
           pages st = 4 \<and> files st = 2"
proof -
  let ?a = "\<lparr>pdf_pages = [plain_page 1, plain_page 2], pdf_bytes = 5000\<rparr>"
  have "\<exists>st w'. process ev [''x.pdf'', ''x_clean.pdf''] True True True False name_clash =
             Inr ((merged_name (clean_name ''x.pdf''), st), w') \<and>
           pages_at (merged_name (clean_name ''x.pdf'')) w' =
             Some (map (redacted_page True True) (pdf_pages ?a) @
                   map (redacted_page True True) (pdf_pages (redacted_doc ev True True ?a))) \<and>
           pages st = length (pdf_pages ?a) + length (pdf_pages (redacted_doc ev True True ?a)) \<and>
           files st = 2 \<and> watermarks st = 0 \<and>
           printed w' = printed name_clash @
             [doc_count True True ?a, doc_count True True (redacted_doc ev True True ?a)] \<and>
           gs_runs w' = gs_runs name_clash"
    by (rule process_two_flat)
       (simp_all add: clean_name_examples merged_name_examples name_clash_files
          readable_examples readable_redacted)
  then obtain st w' where
    "process ev [''x.pdf'', ''x_clean.pdf''] True True True False name_clash =
       Inr ((''x_clean_merged.pdf'', st), w')"
    and "pages_at ''x_clean_merged.pdf'' w' =
             Some [redacted_page True True (plain_page 1), redacted_page True True (plain_page 2),
                   redacted_page True True (redacted_page True True (plain_page 1)),
                   redacted_page True True (redacted_page True True (plain_page 2))]"
    and "pages st = 4" and "files st = 2"
    by (auto simp: clean_name_examples merged_name_examples redacted_doc_def)
  then show ?thesis by blast
qed

section \<open>The stated properties\<close>

text \<open>
  C1 at a failing input. One file whose only page carries a CamScanner banner: the
  redactor performs and prints one redaction, and the returned \<^verbatim>\<open>watermarks\<close> is 0.
  In the two-file scenario the redactor prints 1 and 0, and \<^verbatim>\<open>watermarks\<close> is 0
  again.
\<close>

theorem watermarks_never_counted:
  "map_option (watermarks \<circ> snd)
     (returned (process gs_ok [''a.pdf''] True True True False scenario)) = Some 0 \<and>
   map_option printed
     (world_after (process gs_ok [''a.pdf''] True True True False scenario)) = Some [1] \<and>
   map_option (watermarks \<circ> snd)
     (returned (process gs_ok [''a.pdf'', ''b.pdf''] True True True False scenario)) = Some 0 \<and>
   map_option printed
     (world_after (process gs_ok [''a.pdf'', ''b.pdf''] True True True False scenario)) =
     Some [1, 0]"
proof -
  have one: "process gs_ok [''a.pdf''] True True True False scenario =
      Inr ((clean_name ''a.pdf'',
            \<lparr>pages = length (pdf_pages \<lparr>pdf_pages = [banner_page], pdf_bytes = 5000\<rparr>),
             files = 1, watermarks = 0,
             size_mb = py_round (real (pdf_bytes (redacted_doc gs_ok True True
                         \<lparr>pdf_pages = [banner_page], pdf_bytes = 5000\<rparr>)) / (1024 * 1024)) 2\<rparr>),
           scenario\<lparr>fs := (fs scenario)(clean_name ''a.pdf'' \<mapsto>
                      redacted_doc gs_ok True True \<lparr>pdf_pages = [banner_page], pdf_bytes = 5000\<rparr>),
                    printed := printed scenario @
                      [doc_count True True \<lparr>pdf_pages = [banner_page], pdf_bytes = 5000\<rparr>]\<rparr>)"
    by (rule process_single_flat)
       (simp_all add: scenario_files readable_examples clean_name_examples)
  from scenario_run [of gs_ok] obtain st w' where two:
    "process gs_ok [''a.pdf'', ''b.pdf''] True True True False scenario =
       Inr ((''a_clean_merged.pdf'', st), w')"
    "watermarks st = 0" "printed w' = [1, 0]"
    by blast
  show ?thesis
    using one two by (simp add: scenario_files doc_count_def page_count_examples)
qed

text \<open>
  C2 at a failing input. With \<^verbatim>\<open>merge\<close> and \<^verbatim>\<open>compress\<close> set and two files,
  \<^verbatim>\<open>process\<close> raises \<^verbatim>\<open>FileNotFoundError\<close> both when Ghostscript exits with a
  non-zero status and when it is missing; the same calls without \<^verbatim>\<open>compress\<close>
  return.
\<close>

theorem compress_failure_raises:
  "process gs_failing [''a.pdf'', ''b.pdf''] True True True True scenario =
     Inl FileNotFoundError \<and>
   process gs_missing [''a.pdf'', ''b.pdf''] True True True True scenario =
     Inl FileNotFoundError \<and>
   returned (process gs_failing [''a.pdf'', ''b.pdf''] True True True False scenario) \<noteq> None \<and>
   returned (process gs_missing [''a.pdf'', ''b.pdf''] True True True False scenario) \<noteq> None"
proof -
  have a: "process gs_failing [''a.pdf'', ''b.pdf''] True True True True scenario =
     Inl FileNotFoundError"
    by (rule scenario_run_compress_fails) (simp add: gs_failing_def)
  have b: "process gs_missing [''a.pdf'', ''b.pdf''] True True True True scenario =
     Inl FileNotFoundError"
    by (rule scenario_run_compress_fails) (simp add: gs_missing_def)
  have c: "returned (process ev [''a.pdf'', ''b.pdf''] True True True False scenario) \<noteq> None"
    for ev
    using scenario_run [of ev] by auto
  show ?thesis using a b c by simp
qed

text \<open>
  C3. On a page whose width and height are not zero, the Region Heuristic classifies a
  placement rectangle as a watermark exactly when all four bounds hold: relative
  x-origin above 0.65, relative y-origin above 0.70, area below 20000 and relative
  height below 0.12.
\<close>

theorem region_heuristic_iff:
  assumes "pw \<noteq> 0" and "ph \<noteq> 0"
  shows "region_heuristic pw ph r =
           Inr (x0 r / pw > 0.65 \<and> y0 r / ph > 0.7 \<and>
                width r * height r < 20000 \<and> height r / ph < 0.12)"
  using assms by (auto simp: region_heuristic_def Let_def)

text \<open>
  On a 600 x 800 page: a rectangle within all four bounds, and four rectangles each
  breaking one bound (x-origin, y-origin, area, relative height).
\<close>

theorem region_heuristic_iff_witness:
  "(600::real) \<noteq> 0 \<and> (800::real) \<noteq> 0 \<and>
   region_heuristic 600 800 (Rect 510 720 600 810) = Inr True \<and>
   region_heuristic 600 800 (Rect 300 720 390 810) = Inr False \<and>
   region_heuristic 600 800 (Rect 510 400 600 490) = Inr False \<and>
   region_heuristic 600 800 (Rect 400 700 620 795) = Inr False \<and>
   region_heuristic 600 800 (Rect 510 680 560 800) = Inr False"
  using region_heuristic_iff [of 600 800 "Rect 510 720 600 810"]
        region_heuristic_iff [of 600 800 "Rect 300 720 390 810"]
        region_heuristic_iff [of 600 800 "Rect 510 400 600 490"]
        region_heuristic_iff [of 600 800 "Rect 400 700 620 795"]
        region_heuristic_iff [of 600 800 "Rect 510 680 560 800"]
  by (simp add: Rect_def width_def height_def)

text \<open>
  C4 (as the code has it). On a readable file \<^verbatim>\<open>scan_pdf\<close> returns a report;
  \<^verbatim>\<open>has_qr_watermark\<close> is set exactly when some placement rectangle of some page
  has a relative x-origin above 0.65, a relative y-origin above 0.70 and an area below
  20000, and \<^verbatim>\<open>image_details\<close> lists exactly those rectangles, page by page. The
  bound on the relative height is not part of the scan.
\<close>

theorem scan_flags_three_bounds:
  assumes "fs w p = Some doc" and "readable doc"
  shows "\<exists>report. scan_pdf p w = Inr report \<and>
           has_qr_watermark report =
             (\<exists>q\<in>set (pdf_pages doc). \<exists>r\<in>set (page_rects q).
                 0.65 < x0 r / width (rect q) \<and> 0.7 < y0 r / height (rect q) \<and>
                 width r * height r < 20000) \<and>
           image_details report =
             concat (map (\<lambda>(i, q).
                     map (\<lambda>r. \<lparr>detail_page = i + 1,
                               detail_position = (x0 r / width (rect q), y0 r / height (rect q)),
                               detail_extent = (width r, height r)\<rparr>)
                       (filter (\<lambda>r. 0.65 < x0 r / width (rect q) \<and>
                                    0.7 < y0 r / height (rect q) \<and>
                                    width r * height r < 20000)
                          (page_rects q)))
                   (zip [0..<length (pdf_pages doc)] (pdf_pages doc)))"
proof -
  from assms(2) have ok: "list_all (\<lambda>p. sized p \<or> get_images p = []) (pdf_pages doc)"
    by (simp add: readable_def)
  from scan_pdf_readable [OF assms] obtain report where
    "scan_pdf p w = Inr report"
    "has_qr_watermark report = (doc_details 0 (pdf_pages doc) \<noteq> [])"
    "image_details report = doc_details 0 (pdf_pages doc)"
    by blast
  then show ?thesis
    using doc_details_nonempty [OF ok, of 0] doc_details_bounds [OF ok, of 0] by auto
qed

theorem scan_flags_three_bounds_witness:
  "\<exists>report. scan_pdf ''b.pdf'' scenario = Inr report \<and> has_qr_watermark report \<and>
     image_details report =
       [\<lparr>detail_page = 1, detail_position = (17 / 20, 9 / 10), detail_extent = (100, 100)\<rparr>]"
  using scan_flags_three_bounds [OF scenario_files(2) stamp_readable]
  by (simp add: stamp_page_facts)

text \<open>
  C4 as stated fails on the image of the scenario: its relative height is 0.125, so the
  scan flags it and reports \<^verbatim>\<open>has_qr_watermark\<close>, while the Region Heuristic of the
  Redactor rejects it and the Redactor counts no redaction in that file.
\<close>

theorem scan_flags_unredacted_image:
  "scan_heuristic 600 800 (Rect 510 720 610 820) = Inr True \<and>
   region_heuristic 600 800 (Rect 510 720 610 820) = Inr False \<and>
   map_sum id has_qr_watermark (scan_pdf ''b.pdf'' scenario) = Inr True \<and>
   map_option printed (world_after (remove_watermarks gs_ok ''b.pdf'' True True scenario)) =
     Some [0]"
proof -
  have a: "scan_heuristic 600 800 (Rect 510 720 610 820) = Inr True"
    by (simp add: scan_heuristic_def Rect_def width_def height_def Let_def)
  have b: "region_heuristic 600 800 (Rect 510 720 610 820) = Inr False"
    by (simp add: region_heuristic_def Rect_def width_def height_def Let_def)
  from scan_pdf_readable [OF scenario_files(2) stamp_readable] obtain report where
    "scan_pdf ''b.pdf'' scenario = Inr report"
    "has_qr_watermark report = (doc_details 0 [stamp_page] \<noteq> [])"
    by auto
  moreover have "doc_details 0 [stamp_page] \<noteq> []"
    using a by (simp add: doc_details_Cons page_details_def stamp_page_facts)
  ultimately have c: "map_sum id has_qr_watermark (scan_pdf ''b.pdf'' scenario) = Inr True"
    by simp
  have d: "map_option printed
      (world_after (remove_watermarks gs_ok ''b.pdf'' True True scenario)) = Some [0]"
    using remove_watermarks_flat [OF scenario_files(5) scenario_files(2) stamp_readable,
        of gs_ok True True]
    by (simp add: clean_name_examples scenario_files doc_count_def page_count_examples)
  show ?thesis using a b c d by simp
qed

text \<open>
  C5. With \<^verbatim>\<open>remove_text\<close> or \<^verbatim>\<open>remove_qr\<close> set, the Page Redactor returns on
  every page that has no image or has a width and a height that are not zero, and the
  page it returns has the drawings of the original page, followed by whatever the
  detection steps drew, followed by the two white safety-net rectangles: from 50% of
  the width and 85% of the height, and from 75% of the width and 85% of the height, each
  to 2 units from the right and bottom edges. Whenever \<^verbatim>\<open>_remove_watermarks\<close>
  returns, every page of the file it wrote is such a page.
\<close>

theorem safety_net_on_every_page:
  assumes "remove_text \<or> remove_qr"
  shows "(sized p \<or> get_images p = [] \<longrightarrow>
            (\<exists>p' n' ds. redact_page remove_text remove_qr p n = Inr (p', n') \<and>
               drawn p' = drawn p @ ds @
                 [Draw_rect (Rect (width (rect p) * 0.5) (height (rect p) * 0.85)
                               (width (rect p) - 2) (height (rect p) - 2)) white white,
                  Draw_rect (Rect (width (rect p) * 0.75) (height (rect p) * 0.85)
                               (width (rect p) - 2) (height (rect p) - 2)) white white])) \<and>
         (fs w path = Some doc \<and>
          remove_watermarks ev path remove_text remove_qr w = Inr (out, w') \<longrightarrow>
            (\<exists>f. fs w' out = Some f \<and>
               list_all2
                 (\<lambda>q q'. \<exists>ds. drawn q' = drawn q @ ds @
                    [Draw_rect (Rect (width (rect q) * 0.5) (height (rect q) * 0.85)
                                  (width (rect q) - 2) (height (rect q) - 2)) white white,
                     Draw_rect (Rect (width (rect q) * 0.75) (height (rect q) * 0.85)
                                  (width (rect q) - 2) (height (rect q) - 2)) white white])
                 (pdf_pages doc) (pdf_pages f)))"
proof (intro conjI impI)
  assume "sized p \<or> get_images p = []"
  then obtain p' n' where r: "redact_page remove_text remove_qr p n = Inr (p', n')"
    using redact_page_sized redact_page_no_images by blast
  from redact_page_returned [OF r assms] r
  show "\<exists>p' n' ds. redact_page remove_text remove_qr p n = Inr (p', n') \<and>
               drawn p' = drawn p @ ds @
                 [Draw_rect (Rect (width (rect p) * 0.5) (height (rect p) * 0.85)
                               (width (rect p) - 2) (height (rect p) - 2)) white white,
                  Draw_rect (Rect (width (rect p) * 0.75) (height (rect p) * 0.85)
                               (width (rect p) - 2) (height (rect p) - 2)) white white]"
    by blast
next
  assume "fs w path = Some doc \<and>
          remove_watermarks ev path remove_text remove_qr w = Inr (out, w')"
  then have a: "remove_watermarks ev path remove_text remove_qr w = Inr (out, w')"
    and b: "fs w path = Some doc" by simp_all
  from remove_watermarks_returned [OF a b] obtain ps k where
    r: "redact_pages remove_text remove_qr (pdf_pages doc) 0 = Inr (ps, k)"
    and f: "fs w' out = Some \<lparr>pdf_pages = ps, pdf_bytes = fitz_save ev ps\<rparr>"
    by blast
  from redact_pages_returned [OF r assms] f
  show "\<exists>f. fs w' out = Some f \<and>
               list_all2
                 (\<lambda>q q'. \<exists>ds. drawn q' = drawn q @ ds @
                    [Draw_rect (Rect (width (rect q) * 0.5) (height (rect q) * 0.85)
                                  (width (rect q) - 2) (height (rect q) - 2)) white white,
                     Draw_rect (Rect (width (rect q) * 0.75) (height (rect q) * 0.85)
                                  (width (rect q) - 2) (height (rect q) - 2)) white white])
                 (pdf_pages doc) (pdf_pages f)"
    by simp
qed

text \<open>
  A 600 x 800 page with no text and no images, with \<^verbatim>\<open>remove_qr\<close> alone, and a file
  of two such pages.
\<close>

theorem safety_net_on_every_page_witness:
  "(\<exists>p' n' ds. redact_page False True (plain_page 1) 0 = Inr (p', n') \<and>
      drawn p' = drawn (plain_page 1) @ ds @
        [Draw_rect (Rect 300 680 598 798) white white,
         Draw_rect (Rect 450 680 598 798) white white]) \<and>
   (\<exists>w' f. remove_watermarks gs_ok ''a.pdf'' False True two_and_three = Inr (''a_clean.pdf'', w') \<and>
      fs w' ''a_clean.pdf'' = Some f \<and>
      list_all2
        (\<lambda>q q'. \<exists>ds. drawn q' = drawn q @ ds @
           [Draw_rect (Rect 300 680 598 798) white white,
            Draw_rect (Rect 450 680 598 798) white white])
        [plain_page 1, plain_page 2] (pdf_pages f))"
proof -
  let ?doc = "\<lparr>pdf_pages = [plain_page 1, plain_page 2], pdf_bytes = 5000\<rparr>"
  have wh: "width (rect (plain_page k)) = 600" "height (rect (plain_page k)) = 800" for k
    by (simp_all add: plain_page_def Rect_def width_def height_def)
  have whq: "width (rect q) = 600 \<and> height (rect q) = 800"
    if "q \<in> set [plain_page 1, plain_page 2]" for q
    using that wh by auto
  have flag: "False \<or> True" by simp
  have ok: "sized (plain_page 1) \<or> get_images (plain_page 1) = []"
    by (simp add: sized_examples)
  have first: "\<exists>p' n' ds. redact_page False True (plain_page 1) 0 = Inr (p', n') \<and>
      drawn p' = drawn (plain_page 1) @ ds @
        [Draw_rect (Rect 300 680 598 798) white white,
         Draw_rect (Rect 450 680 598 798) white white]"
    using safety_net_on_every_page [OF flag, of "plain_page 1" 0, THEN conjunct1, rule_format,
        OF ok]
    by (simp add: wh)
  obtain w' where run:
    "remove_watermarks gs_ok ''a.pdf'' False True two_and_three = Inr (''a_clean.pdf'', w')"
    using remove_watermarks_flat [OF two_and_three_files(5) two_and_three_files(1)
        readable_examples(3), of gs_ok False True]
    by (simp add: clean_name_examples)
  have both: "fs two_and_three ''a.pdf'' = Some ?doc \<and>
      remove_watermarks gs_ok ''a.pdf'' False True two_and_three = Inr (''a_clean.pdf'', w')"
    using run two_and_three_files(1) by simp
  from safety_net_on_every_page [OF flag, THEN conjunct2, rule_format, OF both]
  obtain f where f: "fs w' ''a_clean.pdf'' = Some f"
    and every: "list_all2
             (\<lambda>q q'. \<exists>ds. drawn q' = drawn q @ ds @
                [Draw_rect (Rect (width (rect q) * 0.5) (height (rect q) * 0.85)
                              (width (rect q) - 2) (height (rect q) - 2)) white white,
                 Draw_rect (Rect (width (rect q) * 0.75) (height (rect q) * 0.85)
                              (width (rect q) - 2) (height (rect q) - 2)) white white])
             (pdf_pages ?doc) (pdf_pages f)"
    by (elim exE conjE)
  have "list_all2
       (\<lambda>q q'. \<exists>ds. drawn q' = drawn q @ ds @
          [Draw_rect (Rect 300 680 598 798) white white,
           Draw_rect (Rect 450 680 598 798) white white])
       (pdf_pages ?doc) (pdf_pages f)"
    using every
  proof (rule list.rel_mono_strong)
    fix q q'
    assume "q \<in> set (pdf_pages ?doc)"
    then have q: "q \<in> set [plain_page 1, plain_page 2]" by simp
    assume "\<exists>ds. drawn q' = drawn q @ ds @
                [Draw_rect (Rect (width (rect q) * 0.5) (height (rect q) * 0.85)
                              (width (rect q) - 2) (height (rect q) - 2)) white white,
                 Draw_rect (Rect (width (rect q) * 0.75) (height (rect q) * 0.85)
                              (width (rect q) - 2) (height (rect q) - 2)) white white]"
    then show "\<exists>ds. drawn q' = drawn q @ ds @
          [Draw_rect (Rect 300 680 598 798) white white,
           Draw_rect (Rect 450 680 598 798) white white]"
      using whq [OF q] by simp
  qed
  then have "list_all2
       (\<lambda>q q'. \<exists>ds. drawn q' = drawn q @ ds @
          [Draw_rect (Rect 300 680 598 798) white white,
           Draw_rect (Rect 450 680 598 798) white white])
       [plain_page 1, plain_page 2] (pdf_pages f)"
    by simp
  with run f have second: "\<exists>w' f. remove_watermarks gs_ok ''a.pdf'' False True two_and_three =
        Inr (''a_clean.pdf'', w') \<and>
      fs w' ''a_clean.pdf'' = Some f \<and>
      list_all2
        (\<lambda>q q'. \<exists>ds. drawn q' = drawn q @ ds @
           [Draw_rect (Rect 300 680 598 798) white white,
            Draw_rect (Rect 450 680 598 798) white white])
        [plain_page 1, plain_page 2] (pdf_pages f)"
    by (intro exI conjI)
  show ?thesis using first second by (rule conjI)
qed

text \<open>
  C6. With \<^verbatim>\<open>merge\<close> unset, once \<^verbatim>\<open>_remove_watermarks\<close> has returned for the
  first file, \<^verbatim>\<open>process\<close> returns at once: the path is the redacted first file,
  \<^verbatim>\<open>files\<close> is the length of the whole input list and \<^verbatim>\<open>pages\<close> the page count
  of the first file. The world it leaves is the one that single call left: no other
  file is read, written or counted, whatever the rest of the list is.
\<close>

theorem no_merge_first_only:
  assumes "remove_watermarks ev p remove_text remove_qr w = Inr (clean_path, w1)"
    and "fs w p = Some doc"
  shows "\<exists>f. fs w1 clean_path = Some f \<and>
           process ev (p # ps) remove_text remove_qr False compress w =
             Inr ((clean_path,
                   \<lparr>pages = length (pdf_pages doc), files = length (p # ps), watermarks = 0,
                    size_mb = real (pdf_bytes f) / (1024 * 1024)\<rparr>), w1)"
  using process_first_only [OF assms] .

text \<open>Three inputs, the first with two pages; the other two are left alone.\<close>

theorem no_merge_first_only_witness:
  "returned (process gs_ok [''a.pdf'', ''b.pdf'', ''c.pdf''] True True False True two_and_three) =
     Some (''a_clean.pdf'',
           \<lparr>pages = 2, files = 3, watermarks = 0, size_mb = 2469134 / (1024 * 1024)\<rparr>) \<and>
   map_option (\<lambda>w. (fs w ''b_clean.pdf'', fs w ''c_clean.pdf'', printed w, gs_runs w))
     (world_after (process gs_ok [''a.pdf'', ''b.pdf'', ''c.pdf''] True True False True
        two_and_three)) = Some (None, None, [0], [])"
proof -
  let ?doc = "\<lparr>pdf_pages = [plain_page 1, plain_page 2], pdf_bytes = 5000\<rparr>"
  let ?w1 = "two_and_three\<lparr>fs := (fs two_and_three)(''a_clean.pdf'' \<mapsto>
                                 redacted_doc gs_ok True True ?doc),
                           printed := printed two_and_three @ [doc_count True True ?doc]\<rparr>"
  have run: "remove_watermarks gs_ok ''a.pdf'' True True two_and_three =
               Inr (''a_clean.pdf'', ?w1)"
    using remove_watermarks_flat [OF two_and_three_files(5) two_and_three_files(1)
        readable_examples(3), of gs_ok True True]
    by (simp add: clean_name_examples)
  from no_merge_first_only [OF run two_and_three_files(1), of "[''b.pdf'', ''c.pdf'']" True]
  obtain f where f: "fs ?w1 ''a_clean.pdf'' = Some f"
    and p: "process gs_ok [''a.pdf'', ''b.pdf'', ''c.pdf''] True True False True two_and_three =
       Inr ((''a_clean.pdf'',
             \<lparr>pages = length (pdf_pages ?doc),
              files = length [''a.pdf'', ''b.pdf'', ''c.pdf''], watermarks = 0,
              size_mb = real (pdf_bytes f) / (1024 * 1024)\<rparr>), ?w1)"
    by (elim exE conjE)
  have fval: "f = redacted_doc gs_ok True True ?doc"
    using f by simp
  have bytes: "pdf_bytes f = 2469134"
    unfolding fval by (simp add: redacted_doc_def gs_ok_def)
  have count: "doc_count True True \<lparr>pdf_pages = [plain_page i, plain_page j], pdf_bytes = n\<rparr> = 0"
    for i j n
    by (simp add: doc_count_def page_count_examples)
  have others: "fs two_and_three ''b_clean.pdf'' = None" "fs two_and_three ''c_clean.pdf'' = None"
    by (simp_all add: two_and_three_def)
  show ?thesis
    unfolding p by (simp add: bytes count others two_and_three_files world_after_def)
qed

text \<open>
  C7 at a failing input. A two-page document \<^verbatim>\<open>x.pdf\<close> and a three-page document
  \<^verbatim>\<open>x_clean.pdf\<close>, merged without compression: the intermediate of the first
  input is written over the second input, and the merged document has four pages,
  the redacted pages of the first document and then the same two pages redacted again.
  No page of the second document is in it. Under the names \<^verbatim>\<open>a.pdf\<close> and
  \<^verbatim>\<open>b.pdf\<close> the same two documents give the five pages in order.
\<close>

theorem name_clash_loses_document:
  "map_option fst
     (returned (process gs_ok [''x.pdf'', ''x_clean.pdf''] True True True False name_clash)) =
     Some ''x_clean_merged.pdf'' \<and>
   Option.bind
     (world_after (process gs_ok [''x.pdf'', ''x_clean.pdf''] True True True False name_clash))
     (pages_at ''x_clean_merged.pdf'') =
     Some [redacted_page True True (plain_page 1), redacted_page True True (plain_page 2),
           redacted_page True True (redacted_page True True (plain_page 1)),
           redacted_page True True (redacted_page True True (plain_page 2))] \<and>
   Option.bind
     (world_after (process gs_ok [''a.pdf'', ''b.pdf''] True True True False two_and_three))
     (pages_at ''a_clean_merged.pdf'') =
     Some (map (redacted_page True True)
             [plain_page 1, plain_page 2, plain_page 3, plain_page 4, plain_page 5])"
proof -
  from name_clash_run [of gs_ok] obtain st w' where a:
    "process gs_ok [''x.pdf'', ''x_clean.pdf''] True True True False name_clash =
       Inr ((''x_clean_merged.pdf'', st), w')"
    "pages_at ''x_clean_merged.pdf'' w' =
       Some [redacted_page True True (plain_page 1), redacted_page True True (plain_page 2),
             redacted_page True True (redacted_page True True (plain_page 1)),
             redacted_page True True (redacted_page True True (plain_page 2))]"
    by blast
  from two_and_three_run [of gs_ok] obtain st2 w2 where b:
    "process gs_ok [''a.pdf'', ''b.pdf''] True True True False two_and_three =
       Inr ((''a_clean_merged.pdf'', st2), w2)"
    "pages_at ''a_clean_merged.pdf'' w2 =
       Some (map (redacted_page True True)
               [plain_page 1, plain_page 2, plain_page 3, plain_page 4, plain_page 5])"
    by blast
  show ?thesis using a b by simp
qed

text \<open>
  C8 at a failing input. One file with \<^verbatim>\<open>merge\<close> and \<^verbatim>\<open>compress\<close> set and a
  working Ghostscript: \<^verbatim>\<open>process\<close> returns the redacted file itself, and Ghostscript
  has not been run.
\<close>

theorem single_file_not_compressed:
  "returned (process gs_ok [''a.pdf''] True True True True scenario) =
     Some (''a_clean.pdf'', \<lparr>pages = 1, files = 1, watermarks = 0, size_mb = 59 / 50\<rparr>) \<and>
   map_option gs_runs (world_after (process gs_ok [''a.pdf''] True True True True scenario)) =
     Some []"
  using process_single_flat [OF scenario_files(5) scenario_files(1) readable_examples(1),
      of gs_ok True True True]
  by (simp add: scenario_files clean_name_examples
        redacted_doc_def gs_ok_def py_round_def round_half_even_def Let_def)

text \<open>
  C9 at a failing input. With \<^verbatim>\<open>merge\<close> unset the output file has 1234567 bytes and
  the returned \<^verbatim>\<open>size_mb\<close> is the unrounded quotient 1234567 / 1048576; rounded to
  two decimals it is 1.18, which is what the same file yields on the normal return.
\<close>

theorem early_return_size_not_rounded:
  "map_option (size_mb \<circ> snd)
     (returned (process gs_ok [''a.pdf''] True True False True scenario)) =
     Some (1234567 / (1024 * 1024)) \<and>
   py_round (1234567 / (1024 * 1024)) 2 = 59 / 50 \<and>
   map_option (size_mb \<circ> snd)
     (returned (process gs_ok [''a.pdf''] True True True True scenario)) = Some (59 / 50)"
  using process_no_merge_flat [OF scenario_files(5) scenario_files(1) readable_examples(1),
      of gs_ok "[]" True True True]
    process_single_flat [OF scenario_files(5) scenario_files(1) readable_examples(1),
      of gs_ok True True True]
  by (simp add: scenario_files clean_name_examples
        redacted_doc_def gs_ok_def py_round_def round_half_even_def Let_def)

text \<open>
  C10. On a document with no page \<^verbatim>\<open>scan_pdf\<close> raises \<^verbatim>\<open>IndexError\<close> at
  \<^verbatim>\<open>doc[0]\<close>. On a document with at least one page, every page with an image having
  a width and a height that are not zero, it returns a report, whose page count is that
  of the document.
\<close>

theorem scan_pdf_needs_first_page:
  assumes "fs w p = Some doc"
  shows "(pdf_pages doc = [] \<longrightarrow> scan_pdf p w = Inl IndexError) \<and>
         (pdf_pages doc \<noteq> [] \<and> list_all (\<lambda>q. sized q \<or> get_images q = []) (pdf_pages doc) \<longrightarrow>
            (\<exists>report. scan_pdf p w = Inr report \<and>
               report_pages report = length (pdf_pages doc)))"
  using scan_pdf_no_page [OF assms] scan_pdf_readable [OF assms]
  by (auto simp: readable_def)

theorem scan_pdf_needs_first_page_witness:
  "scan_pdf ''e.pdf'' no_pages = Inl IndexError \<and>
   (\<exists>report. scan_pdf ''b.pdf'' scenario = Inr report \<and> report_pages report = 1)"
  using scan_pdf_needs_first_page [of no_pages "''e.pdf''" "\<lparr>pdf_pages = [], pdf_bytes = 300\<rparr>"]
    scan_pdf_needs_first_page [OF scenario_files(2)]
  by (simp add: no_pages_def sized_examples)

end
